theory Spec2Isabelle
  imports Complex_Main "HOL-Library.Stream" "HOL-Library.Multiset"
begin

section \<open>Values, errors and the random state\<close>

text \<open>
  The sampling routines of \<^verbatim>\<open>inspiremusic/utils/common.py\<close> work on one-dimensional
  tensors. A tensor of weights is a list of reals (exact arithmetic; the rounding of tensor
  arithmetic is not modelled), a token id is a natural number, and the history of decoded
  tokens is a list of token ids. The one place where rounding is modelled is the threshold
  \<^verbatim>\<open>win_size * tau_r\<close> of the Repetition Guard, a product of Python floats that is
  compared with an integer count. The only non-finite entry the code itself writes is the
  \<^verbatim>\<open>float('-inf')\<close> mask of \<^verbatim>\<open>topk_sampling\<close>, so a vector handed to
  \<^verbatim>\<open>random_sampling\<close> has entries of type \<open>score\<close>.

  Exceptions are values of type \<open>error\<close>. \<open>NonFinite\<close> is not an exception: it marks
  the inputs that this model does not follow, those on which float arithmetic can leave
  the finite reals (a division by a zero sum or a zero penalty, a zero raised to a negative
  power, a power of a negative base). Nothing is claimed about the code on them.
\<close>

datatype error = ZeroDivisionError | IndexError | RuntimeError | AttributeError | NonFinite

datatype score = NegInf | Fin real

text \<open>
  The process-wide random state: the generator of the tensor library, read by
  \<^verbatim>\<open>multinomial\<close>, and the generator of Python's \<^verbatim>\<open>random\<close> module, read by
  \<^verbatim>\<open>random.choice\<close>. Each is the stream of raw values it is going to produce.
\<close>

record rng =
  torch_gen :: "nat stream"
  py_gen :: "nat stream"

definition uniform01 :: "nat stream \<Rightarrow> real \<times> nat stream" where
  "uniform01 s = (real (shd s mod 2 ^ 24) / 2 ^ 24, stl s)"

section \<open>Library operations\<close>

fun exp_score :: "score \<Rightarrow> real" where
  "exp_score NegInf = 0"
| "exp_score (Fin x) = exp x"

text \<open>\<^verbatim>\<open>t.softmax(dim=0)\<close>: \<open>exp\<close> of each entry over the sum of all of them.\<close>

definition softmax :: "score list \<Rightarrow> real list" where
  "softmax xs = (let z = sum_list (map exp_score xs) in map (\<lambda>x. exp_score x / z) xs)"

text \<open>
  The index at which the running sum of \<open>ps\<close> first exceeds \<open>x\<close>: the inverse of the
  cumulative distribution.
\<close>

fun categorical :: "real list \<Rightarrow> real \<Rightarrow> nat" where
  "categorical [] x = 0"
| "categorical (p # ps) x = (if x < p then 0 else Suc (categorical ps (x - p)))"

text \<open>
  \<^verbatim>\<open>probs.multinomial(1, replacement=True)\<close>: one index, drawn with probability
  proportional to its weight. The library rejects a negative weight and a sum of weights
  that is not positive (an empty tensor has sum 0). The draw consumes one raw value of the
  generator and is the inverse of the cumulative distribution at the uniform variate made
  of that value. What the theorems below use of it is that the index drawn has a positive
  weight and that the draw is a function of the weights and the generator alone.
\<close>

definition multinomial :: "real list \<Rightarrow> rng \<Rightarrow> error + nat \<times> rng" where
  "multinomial probs g =
     (if (\<exists>p \<in> set probs. p < 0) \<or> sum_list probs \<le> 0 then Inl RuntimeError
      else case uniform01 (torch_gen g) of
             (u, s) \<Rightarrow> Inr (categorical probs (u * sum_list probs), g\<lparr>torch_gen := s\<rparr>))"

text \<open>
  \<^verbatim>\<open>t.sort(descending=True, stable=True)\<close>: the values with their indices, by
  descending value, equal values in their original order.
\<close>

definition sort_descending :: "real list \<Rightarrow> (real \<times> nat) list" where
  "sort_descending xs = sort_key (\<lambda>(v, i). - v) (zip xs [0..<length xs])"

section \<open>The sampling routines\<close>

text \<open>
  \<^verbatim>\<open>
  def random_sampling(weighted_scores, decoded_tokens):
      top_ids = weighted_scores.softmax(dim=0).multinomial(1, replacement=True)
      return top_ids
  \<close>
\<close>

definition random_sampling :: "score list \<Rightarrow> nat list \<Rightarrow> rng \<Rightarrow> error + nat \<times> rng" where
  "random_sampling weighted_scores decoded_tokens g = multinomial (softmax weighted_scores) g"

text \<open>
  The loop of \<^verbatim>\<open>nucleus_sampling\<close>: \<open>acc\<close> is the pair of lists \<^verbatim>\<open>prob\<close> and
  \<^verbatim>\<open>indices\<close>, \<open>cum_prob\<close> the accumulated mass.
  \<^verbatim>\<open>
  for i in range(len(sorted_idx)):
      if cum_prob < top_p and len(prob) < top_k:
          cum_prob += sorted_value[i]
          prob.append(sorted_value[i])
          indices.append(sorted_idx[i])
      else:
          break
  \<close>
\<close>

fun nucleus_loop ::
  "(real \<times> nat) list \<Rightarrow> real \<Rightarrow> int \<Rightarrow> real \<Rightarrow> (real \<times> nat) list \<Rightarrow> (real \<times> nat) list" where
  "nucleus_loop [] top_p top_k cum_prob acc = acc"
| "nucleus_loop (e # es) top_p top_k cum_prob acc =
     (if cum_prob < top_p \<and> int (length acc) < top_k
      then nucleus_loop es top_p top_k (cum_prob + fst e) (acc @ [e])
      else acc)"

text \<open>
  \<^verbatim>\<open>
  def nucleus_sampling(weighted_scores, top_p=0.8, top_k=25):
      prob, indices = [], []
      cum_prob = 0.0
      sorted_value, sorted_idx = weighted_scores.softmax(dim=0).sort(descending=True, stable=True)
      for i in range(len(sorted_idx)):
          ...
      prob = torch.tensor(prob).to(weighted_scores)
      indices = torch.tensor(indices, dtype=torch.long).to(weighted_scores.device)
      top_ids = indices[prob.multinomial(1, replacement=True)]
      return top_ids
  \<close>
  \<open>nucleus_candidates\<close> is the pair of lists \<^verbatim>\<open>prob\<close> and \<^verbatim>\<open>indices\<close> after the
  loop.
\<close>

definition nucleus_candidates :: "real list \<Rightarrow> real \<Rightarrow> int \<Rightarrow> (real \<times> nat) list" where
  "nucleus_candidates weighted_scores top_p top_k =
     nucleus_loop (sort_descending (softmax (map Fin weighted_scores))) top_p top_k 0 []"

definition nucleus_sampling :: "real list \<Rightarrow> real \<Rightarrow> int \<Rightarrow> rng \<Rightarrow> error + nat \<times> rng" where
  "nucleus_sampling weighted_scores top_p top_k g =
     (let cands = nucleus_candidates weighted_scores top_p top_k
      in case multinomial (map fst cands) g of
           Inl e \<Rightarrow> Inl e
         | Inr (j, g') \<Rightarrow> Inr (snd (cands ! j), g'))"

text \<open>
  Python's floats are IEEE 754 binary64 numbers: 53 significant bits, least exponent
  \<open>-1022\<close> (below it the spacing stays \<open>2 ^ -1074\<close>), rounding to the nearest
  number, a tie to the one with an even significand. \<open>to_double x\<close> is the float
  nearest to \<open>x\<close>: the float that a decimal literal or an integer denotes and that an
  arithmetic operation returns for the exact result \<open>x\<close>. Overflow is not modelled: the
  exponent is not bounded above, so \<open>to_double\<close> is the float only below \<open>2 ^ 1024\<close>.
\<close>

definition round_half_even :: "real \<Rightarrow> int" where
  "round_half_even x =
     (let f = \<lfloor>x\<rfloor>; d = x - real_of_int f
      in if d < 1 / 2 then f else if 1 / 2 < d then f + 1 else if even f then f else f + 1)"

definition to_double :: "real \<Rightarrow> real" where
  "to_double x =
     (if x = 0 then 0
      else (let e = max \<lfloor>log 2 \<bar>x\<bar>\<rfloor> (- 1022); q = 2 powr real_of_int (e - 52)
            in real_of_int (round_half_even (x / q)) * q))"

text \<open>
  \<^verbatim>\<open>win_size * tau_r\<close>, an integer times a float: the integer is converted to a float and
  the product of the two floats is rounded. \<open>tau_r\<close> is the number the caller wrote; the
  float it is passed as is \<open>to_double tau_r\<close>.
\<close>

definition float_product :: "int \<Rightarrow> real \<Rightarrow> real" where
  "float_product n x = to_double (to_double (real_of_int n) * to_double x)"

text \<open>
  \<^verbatim>\<open>decoded_tokens[-win_size:]\<close>: the last \<open>win_size\<close> entries when \<open>win_size\<close> is
  positive; the whole list when it is 0 (the slice starts at \<open>-0 = 0\<close>); the list without
  its first \<open>-win_size\<close> entries when it is negative.
\<close>

definition window :: "nat list \<Rightarrow> int \<Rightarrow> nat list" where
  "window decoded_tokens win_size =
     (if 0 < win_size then drop (length decoded_tokens - nat win_size) decoded_tokens
      else drop (nat (- win_size)) decoded_tokens)"

text \<open>
  \<^verbatim>\<open>
  def ras_sampling(weighted_scores, decoded_tokens, top_p=0.8, top_k=25, win_size=10, tau_r=0.1):
      top_ids = nucleus_sampling(weighted_scores, top_p=top_p, top_k=top_k)
      rep_num = (torch.tensor(decoded_tokens[-win_size:]).to(weighted_scores.device) == top_ids).sum().item()
      if rep_num >= win_size * tau_r:
          top_ids = random_sampling(weighted_scores, decoded_tokens)
      return top_ids
  \<close>
  \<^verbatim>\<open>rep_num\<close> is an integer, and Python compares an integer with a float exactly.
\<close>

definition ras_sampling ::
  "real list \<Rightarrow> nat list \<Rightarrow> real \<Rightarrow> int \<Rightarrow> int \<Rightarrow> real \<Rightarrow> rng \<Rightarrow> error + nat \<times> rng" where
  "ras_sampling weighted_scores decoded_tokens top_p top_k win_size tau_r g =
     (case nucleus_sampling weighted_scores top_p top_k g of
        Inl e \<Rightarrow> Inl e
      | Inr (top_ids, g') \<Rightarrow>
          (let rep_num = count_list (window decoded_tokens win_size) top_ids
           in if float_product win_size tau_r \<le> real rep_num
              then random_sampling (map Fin weighted_scores) decoded_tokens g'
              else Inr (top_ids, g')))"

text \<open>
  \<^verbatim>\<open>caras_sampling\<close> unpacks its first argument into the primary and the guidance vector
  and differs from \<^verbatim>\<open>ras_sampling\<close> only in the vector of the second draw.
\<close>

definition caras_sampling ::
  "real list \<times> real list \<Rightarrow> nat list \<Rightarrow> real \<Rightarrow> int \<Rightarrow> int \<Rightarrow> real \<Rightarrow> rng \<Rightarrow> error + nat \<times> rng" where
  "caras_sampling pair decoded_tokens top_p top_k win_size tau_r g =
     (case pair of (weighted_scores, cfg_weighted_scores) \<Rightarrow>
       (case nucleus_sampling weighted_scores top_p top_k g of
          Inl e \<Rightarrow> Inl e
        | Inr (top_ids, g') \<Rightarrow>
            (let rep_num = count_list (window decoded_tokens win_size) top_ids
             in if float_product win_size tau_r \<le> real rep_num
                then random_sampling (map Fin cfg_weighted_scores) decoded_tokens g'
                else Inr (top_ids, g'))))"

text \<open>
  \<^verbatim>\<open>torch.topk(t, k)\<close>: the \<open>k\<close> largest values with their indices. The library
  rejects a \<open>k\<close> that is negative or larger than the size of the tensor. Which of several
  equal values at the boundary are kept is not fixed by the library; the model keeps the
  earliest.
\<close>

definition topk :: "real list \<Rightarrow> int \<Rightarrow> error + (real \<times> nat) list" where
  "topk xs k =
     (if k < 0 \<or> int (length xs) < k then Inl RuntimeError
      else Inr (take (nat k) (sort_descending xs)))"

text \<open>\<^verbatim>\<open>zeros.scatter_(-1, indices, values)\<close>: each value is written at its index.\<close>

definition scatter :: "score list \<Rightarrow> (real \<times> nat) list \<Rightarrow> score list" where
  "scatter zeros vis = fold (\<lambda>(v, i) acc. acc[i := Fin v]) vis zeros"

text \<open>
  \<^verbatim>\<open>
  def topk_sampling(weighted_scores, decoded_tokens, top_k=25):
      zeros = weighted_scores.new_ones(weighted_scores.shape) * float('-inf')
      values,indices =  torch.topk(weighted_scores,top_k)
      zeros.scatter_(-1, indices, values)
      return random_sampling(zeros,decoded_tokens)
  \<close>
\<close>

definition topk_sampling :: "real list \<Rightarrow> nat list \<Rightarrow> int \<Rightarrow> rng \<Rightarrow> error + nat \<times> rng" where
  "topk_sampling weighted_scores decoded_tokens top_k g =
     (let zeros = replicate (length weighted_scores) NegInf
      in case topk weighted_scores top_k of
           Inl e \<Rightarrow> Inl e
         | Inr kept \<Rightarrow> random_sampling (scatter zeros kept) decoded_tokens g)"

text \<open>
  \<^verbatim>\<open>
  def relieve_repetition(weighted_scores, recent_tokens, repetition_penalty=1.2):
      for token in recent_tokens:
          if weighted_scores[token] > 0:
              weighted_scores[token] /= repetition_penalty
      return weighted_scores
  \<close>
  A token beyond the end of the vector raises IndexError. Dividing a positive weight by a
  zero penalty leaves the finite reals.
\<close>

fun relieve_repetition :: "real list \<Rightarrow> nat list \<Rightarrow> real \<Rightarrow> error + real list" where
  "relieve_repetition weighted_scores [] repetition_penalty = Inr weighted_scores"
| "relieve_repetition weighted_scores (token # rest) repetition_penalty =
     (if length weighted_scores \<le> token then Inl IndexError
      else if 0 < weighted_scores ! token then
        (if repetition_penalty = 0 then Inl NonFinite
         else relieve_repetition
                (weighted_scores[token := weighted_scores ! token / repetition_penalty])
                rest repetition_penalty)
      else relieve_repetition weighted_scores rest repetition_penalty)"

section \<open>The constraint hooks\<close>

text \<open>
  Python is dynamically typed: the value that \<^verbatim>\<open>keep_harmony\<close> and
  \<^verbatim>\<open>keep_rhythm\<close> receive as \<^verbatim>\<open>next_token\<close> is whatever the caller passes. Two
  kinds of value reach them: a token id and a tensor of weights.
\<close>

datatype pyval = PyInt nat | PyTensor "real list"

text \<open>
  The truth value of \<^verbatim>\<open>x == e\<close> for an integer \<open>e\<close>. For a tensor the comparison is
  elementwise, and the truth value of its result is defined only when it has exactly one
  element; otherwise the tensor library raises RuntimeError.
\<close>

fun py_eq :: "pyval \<Rightarrow> nat \<Rightarrow> error + bool" where
  "py_eq (PyInt a) e = Inr (a = e)"
| "py_eq (PyTensor t) e = (case t of [x] \<Rightarrow> Inr (x = real e) | _ \<Rightarrow> Inl RuntimeError)"

text \<open>\<^verbatim>\<open>x in allowed\<close> on a list: the elements are compared in order.\<close>

fun py_in :: "pyval \<Rightarrow> nat list \<Rightarrow> error + bool" where
  "py_in x [] = Inr False"
| "py_in x (e # es) =
     (case py_eq x e of
        Inl err \<Rightarrow> Inl err
      | Inr b \<Rightarrow> if b then Inr True else py_in x es)"

text \<open>\<^verbatim>\<open>random.choice(seq)\<close>: IndexError on an empty sequence.\<close>

definition random_choice :: "nat list \<Rightarrow> rng \<Rightarrow> error + nat \<times> rng" where
  "random_choice seq g =
     (if seq = [] then Inl IndexError
      else Inr (seq ! (shd (py_gen g) mod length seq), g\<lparr>py_gen := stl (py_gen g)\<rparr>))"

text \<open>
  \<^verbatim>\<open>
  def keep_harmony(next_token, current_chord):
      allowed_notes = get_allowed_notes(current_chord)
      if next_token not in allowed_notes:
          next_token = random.choice(allowed_notes)
      return next_token
  \<close>
  \<^verbatim>\<open>keep_rhythm\<close> is the same function over \<^verbatim>\<open>get_allowed_durations\<close>. The two
  lookups are not part of the file; they are parameters of the model.
\<close>

definition keep_harmony ::
  "(string \<Rightarrow> nat list) \<Rightarrow> pyval \<Rightarrow> string \<Rightarrow> rng \<Rightarrow> error + pyval \<times> rng" where
  "keep_harmony get_allowed_notes next_token current_chord g =
     (let allowed_notes = get_allowed_notes current_chord
      in case py_in next_token allowed_notes of
           Inl e \<Rightarrow> Inl e
         | Inr b \<Rightarrow>
             if b then Inr (next_token, g)
             else (case random_choice allowed_notes g of
                     Inl e \<Rightarrow> Inl e
                   | Inr (n, g') \<Rightarrow> Inr (PyInt n, g')))"

definition keep_rhythm ::
  "(string \<Rightarrow> nat list) \<Rightarrow> pyval \<Rightarrow> string \<Rightarrow> rng \<Rightarrow> error + pyval \<times> rng" where
  "keep_rhythm get_allowed_durations next_token current_time_signature g =
     (let allowed_durations = get_allowed_durations current_time_signature
      in case py_in next_token allowed_durations of
           Inl e \<Rightarrow> Inl e
         | Inr b \<Rightarrow>
             if b then Inr (next_token, g)
             else (case random_choice allowed_durations g of
                     Inl e \<Rightarrow> Inl e
                   | Inr (n, g') \<Rightarrow> Inr (PyInt n, g')))"

section \<open>Nucleus sampling with constraints\<close>

text \<open>\<^verbatim>\<open>torch.cumsum(t, dim=0)\<close>, with the sum so far as an argument.\<close>

fun cumsum_from :: "real \<Rightarrow> real list \<Rightarrow> real list" where
  "cumsum_from a [] = []"
| "cumsum_from a (x # xs) = (a + x) # cumsum_from (a + x) xs"

text \<open>
  \<^verbatim>\<open>torch.where(cond)[0][0]\<close>: the first index at which the condition holds; reading
  entry 0 of an empty result raises IndexError, here \<open>None\<close>.
\<close>

fun first_index :: "('a \<Rightarrow> bool) \<Rightarrow> 'a list \<Rightarrow> nat option" where
  "first_index P [] = None"
| "first_index P (x # xs) = (if P x then Some 0 else map_option Suc (first_index P xs))"

text \<open>
  The stages of \<^verbatim>\<open>top_p_sampling_with_constraints\<close>, in the order of the source.
  \<^verbatim>\<open>
  weighted_scores = weighted_scores ** (1 / temperature)
  weighted_scores /= weighted_scores.sum()
  if recent_tokens:
      weighted_scores = relieve_repetition(weighted_scores, recent_tokens)
  \<close>
  \<^verbatim>\<open>1 / temperature\<close> is Python's division and raises ZeroDivisionError at 0.
\<close>

definition score_transform ::
  "real list \<Rightarrow> real \<Rightarrow> nat list option \<Rightarrow> error + real list" where
  "score_transform weighted_scores temperature recent_tokens =
     (if temperature = 0 then Inl ZeroDivisionError
      else if \<exists>x \<in> set weighted_scores. x < 0 \<or> (x = 0 \<and> temperature < 0) then Inl NonFinite
      else
        (let powered = map (\<lambda>x. x powr (1 / temperature)) weighted_scores;
             total = sum_list powered
         in if powered \<noteq> [] \<and> total = 0 then Inl NonFinite
            else
              (let scaled = map (\<lambda>x. x / total) powered
               in case recent_tokens of
                    None \<Rightarrow> Inr scaled
                  | Some ts \<Rightarrow>
                      if ts \<noteq> [] then relieve_repetition scaled ts (6 / 5) else Inr scaled)))"

text \<open>
  \<^verbatim>\<open>
  sorted_weighted_scores, _ = torch.sort(weighted_scores, descending=True)
  cumulative_weighted_scores = torch.cumsum(sorted_weighted_scores, dim=0)
  cutoff_index = torch.where(cumulative_weighted_scores >= top_p)[0][0]
  selected_weighted_scores = sorted_weighted_scores[:cutoff_index + 1]
  \<close>
  The indices of the sort are dropped: what is selected is a list of weights.
\<close>

definition select_top_p :: "real list \<Rightarrow> real \<Rightarrow> error + real list" where
  "select_top_p weighted_scores top_p =
     (let sorted_weighted_scores = map fst (sort_descending weighted_scores);
          cumulative_weighted_scores = cumsum_from 0 sorted_weighted_scores
      in case first_index (\<lambda>c. top_p \<le> c) cumulative_weighted_scores of
           None \<Rightarrow> Inl IndexError
         | Some cutoff_index \<Rightarrow> Inr (take (cutoff_index + 1) sorted_weighted_scores))"

text \<open>
  \<^verbatim>\<open>
  if current_chord:
      selected_weighted_scores = keep_harmony(selected_weighted_scores, current_chord)
  if current_time_signature:
      selected_weighted_scores = keep_rhythm(selected_weighted_scores, current_time_signature)
  \<close>
\<close>

definition apply_constraints ::
  "(string \<Rightarrow> nat list) \<Rightarrow> (string \<Rightarrow> nat list) \<Rightarrow> pyval \<Rightarrow> string option \<Rightarrow> string option
     \<Rightarrow> rng \<Rightarrow> error + pyval \<times> rng" where
  "apply_constraints get_allowed_notes get_allowed_durations selected current_chord
       current_time_signature g =
     (case (case current_chord of
              None \<Rightarrow> Inr (selected, g)
            | Some c \<Rightarrow>
                if c \<noteq> [] then keep_harmony get_allowed_notes selected c g
                else Inr (selected, g)) of
        Inl e \<Rightarrow> Inl e
      | Inr (selected', g') \<Rightarrow>
          (case current_time_signature of
             None \<Rightarrow> Inr (selected', g')
           | Some s \<Rightarrow>
               if s \<noteq> [] then keep_rhythm get_allowed_durations selected' s g'
               else Inr (selected', g')))"

text \<open>
  \<^verbatim>\<open>
  selected_weighted_scores /= selected_weighted_scores.sum()
  return random_sampling(selected_weighted_scores, decoded_tokens)
  \<close>
  An integer has no \<^verbatim>\<open>sum\<close> attribute.
\<close>

definition normalize_and_sample :: "pyval \<Rightarrow> nat list \<Rightarrow> rng \<Rightarrow> error + nat \<times> rng" where
  "normalize_and_sample selected decoded_tokens g =
     (case selected of
        PyInt n \<Rightarrow> Inl AttributeError
      | PyTensor t \<Rightarrow>
          if sum_list t = 0 then Inl NonFinite
          else random_sampling (map (\<lambda>x. Fin (x / sum_list t)) t) decoded_tokens g)"

definition top_p_sampling_with_constraints ::
  "(string \<Rightarrow> nat list) \<Rightarrow> (string \<Rightarrow> nat list) \<Rightarrow> real list \<Rightarrow> nat list \<Rightarrow> real \<Rightarrow> real
     \<Rightarrow> string option \<Rightarrow> string option \<Rightarrow> nat list option \<Rightarrow> rng \<Rightarrow> error + nat \<times> rng" where
  "top_p_sampling_with_constraints get_allowed_notes get_allowed_durations weighted_scores
       decoded_tokens top_p temperature current_chord current_time_signature recent_tokens g =
     (case score_transform weighted_scores temperature recent_tokens of
        Inl e \<Rightarrow> Inl e
      | Inr transformed \<Rightarrow>
          (case select_top_p transformed top_p of
             Inl e \<Rightarrow> Inl e
           | Inr selected \<Rightarrow>
               (case apply_constraints get_allowed_notes get_allowed_durations
                       (PyTensor selected) current_chord current_time_signature g of
                  Inl e \<Rightarrow> Inl e
                | Inr (selected', g') \<Rightarrow> normalize_and_sample selected' decoded_tokens g')))"

section \<open>Fixtures for the examples\<close>

text \<open>
  A random state whose generators yield the raw value \<open>n\<close> for ever, and the spec's
  "last \<open>n\<close> entries" of a history, for comparison with \<open>window\<close>.
\<close>

definition rng_of :: "nat \<Rightarrow> rng" where
  "rng_of n = \<lparr>torch_gen = sconst n, py_gen = sconst n\<rparr>"

definition last_entries :: "nat \<Rightarrow> 'a list \<Rightarrow> 'a list" where
  "last_entries n xs = drop (length xs - n) xs"

section \<open>Auxiliary facts\<close>


subsection \<open>Floats\<close>

lemma to_double_zero: "to_double 0 = 0"
  by (simp add: to_double_def)

lemma float_product_zero: "float_product n 0 = 0"
  by (simp add: float_product_def to_double_zero)

lemma float_product_zero_left: "float_product 0 x = 0"
  by (simp add: float_product_def to_double_zero)

lemma to_double_binade:
  assumes "2 powr real_of_int e \<le> \<bar>x\<bar>" and "\<bar>x\<bar> < 2 powr real_of_int (e + 1)" and "- 1022 \<le> e"
  shows "to_double x = real_of_int (round_half_even (x / 2 powr real_of_int (e - 52)))
                         * 2 powr real_of_int (e - 52)"
proof -
  have pos: "0 < \<bar>x\<bar>" using assms(1) powr_gt_zero[of 2 "real_of_int e"] by linarith
  then have nz: "x \<noteq> 0" by auto
  have "real_of_int e \<le> log 2 \<bar>x\<bar>" using assms(1) pos by (simp add: le_log_iff)
  moreover have "log 2 \<bar>x\<bar> < real_of_int e + 1" using assms(2) pos by (simp add: log_less_iff)
  ultimately have "\<lfloor>log 2 \<bar>x\<bar>\<rfloor> = e" by linarith
  then show ?thesis using nz assms(3) by (simp add: to_double_def Let_def max_def)
qed

text \<open>An integer of magnitude below \<open>2 ^ 53\<close> is a float.\<close>

lemma round_half_even_of_int: "round_half_even (real_of_int m) = m"
  by (simp add: round_half_even_def)

lemma to_double_of_int:
  assumes "\<bar>n\<bar> < 2 ^ 53"
  shows "to_double (real_of_int n) = real_of_int n"
proof (cases "n = 0")
  case True
  then show ?thesis by (simp add: to_double_zero)
next
  case False
  define x where "x = real_of_int n"
  define e where "e = \<lfloor>log 2 \<bar>x\<bar>\<rfloor>"
  have x1: "1 \<le> \<bar>x\<bar>" using False by (simp add: x_def flip: of_int_abs)
  have "\<bar>x\<bar> < 2 ^ 53" using assms unfolding x_def
    by (metis of_int_abs of_int_less_iff of_int_numeral of_int_power)
  then have x2: "\<bar>x\<bar> < 2 powr 53" by simp
  have "0 \<le> log 2 \<bar>x\<bar>" using x1 by simp
  then have e0: "0 \<le> e" by (simp add: e_def)
  have "log 2 \<bar>x\<bar> < 53" using x1 x2 by (simp add: log_less_iff)
  then have e52: "e \<le> 52" unfolding e_def by linarith
  define k where "k = nat (52 - e)"
  have rk: "real_of_int (e - 52) = - real k" using e52 by (simp add: k_def)
  have q: "2 powr real_of_int (e - 52) = 1 / 2 ^ k"
    unfolding rk by (simp add: powr_minus_divide powr_realpow)
  have "x / (1 / 2 ^ k) = real_of_int (n * 2 ^ k)" by (simp add: x_def)
  then have r: "round_half_even (x / (1 / 2 ^ k)) = n * 2 ^ k"
    by (simp only: round_half_even_of_int)
  have pos: "0 < \<bar>x\<bar>" using x1 by linarith
  have "real_of_int e \<le> log 2 \<bar>x\<bar>" unfolding e_def by linarith
  then have b1: "2 powr real_of_int e \<le> \<bar>x\<bar>" using pos by (simp add: le_log_iff)
  have "log 2 \<bar>x\<bar> < real_of_int (e + 1)" unfolding e_def by simp
  then have b2: "\<bar>x\<bar> < 2 powr real_of_int (e + 1)" using pos by (simp add: log_less_iff)
  have b3: "- 1022 \<le> e" using e0 by simp
  have "to_double x = real_of_int (round_half_even (x / (1 / 2 ^ k))) * (1 / 2 ^ k)"
    using to_double_binade[OF b1 b2 b3] by (simp only: q)
  also have "\<dots> = x" unfolding r by (simp add: x_def)
  finally show ?thesis by (simp add: x_def)
qed

lemma float_product_of_int:
  "\<bar>n\<bar> < 2 ^ 53 \<Longrightarrow> float_product n x = to_double (real_of_int n * to_double x)"
  by (simp add: float_product_def to_double_of_int)

text \<open>The floats of 0.28, 0.1, 0.2, 25 and 10, and the products \<open>25 * 0.28\<close>, \<open>10 * 0.1\<close>, \<open>10 * 0.2\<close>.\<close>

lemma to_double_028: "to_double (28 / 100) = 5044031582654956 / 2 ^ 54"
  using to_double_binade[of "- 2" "28 / 100"]
  by (simp add: round_half_even_def powr_minus_divide)

lemma to_double_01: "to_double (1 / 10) = 7205759403792794 / 2 ^ 56"
  using to_double_binade[of "- 4" "1 / 10"]
  by (simp add: round_half_even_def powr_minus_divide)

lemma to_double_02: "to_double (1 / 5) = 7205759403792794 / 2 ^ 55"
  using to_double_binade[of "- 3" "1 / 5"]
  by (simp add: round_half_even_def powr_minus_divide)

lemma to_double_25: "to_double 25 = 25"
  using to_double_binade[of 4 25]
  by (simp add: round_half_even_def powr_minus_divide)

lemma to_double_10: "to_double 10 = 10"
  using to_double_binade[of 3 10]
  by (simp add: round_half_even_def powr_minus_divide)

lemma rounded_25_028: "to_double (25 * (5044031582654956 / 2 ^ 54)) = 7881299347898369 / 2 ^ 50"
  using to_double_binade[of 2 "25 * (5044031582654956 / 2 ^ 54)"]
  by (simp add: round_half_even_def powr_minus_divide)

lemma rounded_10_01: "to_double (10 * (7205759403792794 / 2 ^ 56)) = 1"
  using to_double_binade[of 0 "10 * (7205759403792794 / 2 ^ 56)"]
  by (simp add: round_half_even_def powr_minus_divide)

lemma rounded_10_02: "to_double (10 * (7205759403792794 / 2 ^ 55)) = 2"
  using to_double_binade[of 1 "10 * (7205759403792794 / 2 ^ 55)"]
  by (simp add: round_half_even_def powr_minus_divide)

lemma float_product_25_028: "float_product 25 (28 / 100) = 7881299347898369 / 2 ^ 50"
  by (simp only: float_product_def of_int_numeral to_double_25 to_double_028 rounded_25_028)

lemma float_product_10_01: "float_product 10 (1 / 10) = 1"
  by (simp only: float_product_def of_int_numeral to_double_10 to_double_01 rounded_10_01)

lemma float_product_10_02: "float_product 10 (1 / 5) = 2"
  by (simp only: float_product_def of_int_numeral to_double_10 to_double_02 rounded_10_02)

subsection \<open>The categorical draw\<close>

lemma categorical_range:
  "\<forall>p \<in> set ps. 0 \<le> p \<Longrightarrow> 0 \<le> x \<Longrightarrow> x < sum_list ps \<Longrightarrow>
     categorical ps x < length ps \<and> 0 < ps ! categorical ps x"
proof (induction ps arbitrary: x)
  case Nil
  then show ?case by simp
next
  case (Cons p ps)
  show ?case
  proof (cases "x < p")
    case True
    then show ?thesis using Cons.prems by simp
  next
    case False
    then have "0 \<le> x - p" "x - p < sum_list ps" using Cons.prems by simp_all
    moreover have "\<forall>q \<in> set ps. 0 \<le> q" using Cons.prems by simp
    ultimately show ?thesis using Cons.IH[of "x - p"] False by simp
  qed
qed

lemma uniform01_range: "uniform01 s = (u, s') \<Longrightarrow> 0 \<le> u \<and> u < 1"
proof -
  assume "uniform01 s = (u, s')"
  then have u: "u = real (shd s mod 2 ^ 24) / 2 ^ 24" by (simp add: uniform01_def)
  have "shd s mod 2 ^ 24 < (2 ^ 24 :: nat)" by simp
  then have "real (shd s mod 2 ^ 24) < 2 ^ 24"
    by (metis of_nat_less_iff of_nat_numeral of_nat_power)
  then show ?thesis using u by simp
qed

lemma multinomial_range:
  assumes "multinomial ps g = Inr (j, g')"
  shows "j < length ps \<and> 0 < ps ! j"
proof -
  obtain u s where us: "uniform01 (torch_gen g) = (u, s)" by (cases "uniform01 (torch_gen g)")
  have nonneg: "\<forall>p \<in> set ps. 0 \<le> p" and pos: "0 < sum_list ps"
    using assms by (auto simp: multinomial_def split: if_splits)
  have j: "j = categorical ps (u * sum_list ps)"
    using assms us nonneg pos by (auto simp: multinomial_def split: if_splits)
  have "0 \<le> u" "u < 1" using uniform01_range[OF us] by simp_all
  then have "0 \<le> u * sum_list ps" "u * sum_list ps < sum_list ps" using pos by simp_all
  then show ?thesis using categorical_range[OF nonneg] j by simp
qed

subsection \<open>Sorting and the nucleus loop\<close>

lemma length_softmax: "length (softmax xs) = length xs"
  by (simp add: softmax_def Let_def)

lemma set_sort_descending: "set (sort_descending xs) = set (zip xs [0..<length xs])"
  by (simp add: sort_descending_def)

lemma length_sort_descending: "length (sort_descending xs) = length xs"
  by (simp add: sort_descending_def)

lemma snd_sort_descending: "e \<in> set (sort_descending xs) \<Longrightarrow> snd e < length xs"
  by (cases e) (auto simp: set_sort_descending dest: set_zip_rightD)

lemma nucleus_loop_prefix:
  "\<exists>m \<le> length es. nucleus_loop es top_p top_k c acc = acc @ take m es"
proof (induction es arbitrary: c acc)
  case Nil
  then show ?case by simp
next
  case (Cons e es)
  show ?case
  proof (cases "c < top_p \<and> int (length acc) < top_k")
    case True
    obtain m where "m \<le> length es"
      "nucleus_loop es top_p top_k (c + fst e) (acc @ [e]) = (acc @ [e]) @ take m es"
      using Cons.IH by blast
    then show ?thesis using True by (intro exI[of _ "Suc m"]) simp
  next
    case False
    then show ?thesis by (intro exI[of _ 0]) auto
  qed
qed

subsection \<open>Evaluation on two equal scores\<close>

lemma uniform01_rng_of: "uniform01 (torch_gen (rng_of n)) = (real (n mod 2 ^ 24) / 2 ^ 24, sconst n)"
  by (simp add: uniform01_def rng_of_def)

lemma multinomial_rng_of:
  "\<forall>p \<in> set ps. 0 \<le> p \<Longrightarrow> 0 < sum_list ps \<Longrightarrow>
     multinomial ps (rng_of n) =
       Inr (categorical ps (real (n mod 2 ^ 24) / 2 ^ 24 * sum_list ps), rng_of n)"
  by (auto simp: multinomial_def uniform01_def rng_of_def)

lemma softmax_zeros2: "softmax [Fin 0, Fin 0] = [1 / 2, 1 / 2]"
  by (simp add: softmax_def)

lemma sort_descending_halves: "sort_descending [1 / 2, 1 / 2] = [(1 / 2, 0), (1 / 2, 1)]"
  by (simp add: sort_descending_def upt_rec)

lemma nucleus_candidates_zeros2:
  "nucleus_candidates [0, 0] (4 / 5) 25 = [(1 / 2, 0), (1 / 2, 1)]"
  by (simp add: nucleus_candidates_def softmax_zeros2 sort_descending_halves)

lemma nucleus_sampling_zeros2:
  "nucleus_sampling [0, 0] (4 / 5) 25 (rng_of 8388608) = Inr (1, rng_of 8388608)"
  by (simp add: nucleus_sampling_def nucleus_candidates_zeros2 multinomial_rng_of)

lemma random_sampling_zeros2:
  "random_sampling [Fin 0, Fin 0] d (rng_of 8388608) = Inr (1, rng_of 8388608)"
  by (simp add: random_sampling_def softmax_zeros2 multinomial_rng_of)

lemma softmax_ln3: "softmax [Fin (ln 3), Fin 0] = [3 / 4, 1 / 4]"
  by (simp add: softmax_def)

lemma random_sampling_ln3:
  "random_sampling [Fin (ln 3), Fin 0] d (rng_of 8388608) = Inr (0, rng_of 8388608)"
  by (simp add: random_sampling_def softmax_ln3 multinomial_rng_of)

lemma window_nonneg:
  "0 < win_size \<Longrightarrow> window decoded win_size = last_entries (nat win_size) decoded"
  by (simp add: window_def last_entries_def)

subsection \<open>Range of the results\<close>

lemma random_sampling_range:
  "random_sampling xs d g = Inr (i, g') \<Longrightarrow> i < length xs"
  using multinomial_range[of "softmax xs" g i g'] by (simp add: random_sampling_def length_softmax)

lemma random_sampling_range_Fin:
  "random_sampling (map Fin ws) d g = Inr (i, g') \<Longrightarrow> i < length ws"
  using random_sampling_range[of "map Fin ws" d g i g'] by simp

lemma nucleus_candidates_prefix:
  "\<exists>m \<le> length weighted_scores. nucleus_candidates weighted_scores top_p top_k =
      take m (sort_descending (softmax (map Fin weighted_scores)))"
  using nucleus_loop_prefix[of "sort_descending (softmax (map Fin weighted_scores))" top_p top_k 0 "[]"]
  by (simp add: nucleus_candidates_def length_sort_descending length_softmax)

lemma nucleus_candidates_index:
  assumes "e \<in> set (nucleus_candidates weighted_scores top_p top_k)"
  shows "snd e < length weighted_scores"
proof -
  obtain m where "nucleus_candidates weighted_scores top_p top_k =
      take m (sort_descending (softmax (map Fin weighted_scores)))"
    using nucleus_candidates_prefix by blast
  then have "e \<in> set (sort_descending (softmax (map Fin weighted_scores)))"
    using assms by (auto dest: in_set_takeD)
  then show ?thesis using snd_sort_descending by (fastforce simp: length_softmax)
qed

lemma nucleus_sampling_range:
  assumes "nucleus_sampling weighted_scores top_p top_k g = Inr (i, g')"
  shows "i < length weighted_scores"
proof -
  let ?c = "nucleus_candidates weighted_scores top_p top_k"
  obtain j where j: "multinomial (map fst ?c) g = Inr (j, g')" and i: "i = snd (?c ! j)"
    using assms by (auto simp: nucleus_sampling_def Let_def split: sum.splits)
  have "j < length ?c" using multinomial_range[OF j] by simp
  then have "?c ! j \<in> set ?c" by simp
  then show ?thesis using nucleus_candidates_index i by blast
qed

lemma length_scatter: "length (scatter zs vis) = length zs"
proof -
  have "length (fold (\<lambda>(v, i) acc. acc[i := Fin v]) vis zs) = length zs"
    by (induction vis arbitrary: zs) (auto split: prod.splits)
  then show ?thesis by (simp add: scatter_def)
qed

lemma topk_sampling_range:
  "topk_sampling weighted_scores d top_k g = Inr (i, g') \<Longrightarrow> i < length weighted_scores"
  by (auto simp: topk_sampling_def Let_def length_scatter split: sum.splits
      dest!: random_sampling_range)

lemma ras_sampling_range:
  "ras_sampling weighted_scores d top_p top_k w tau g = Inr (i, g') \<Longrightarrow> i < length weighted_scores"
  by (auto simp: ras_sampling_def Let_def split: sum.splits if_splits
      dest: random_sampling_range_Fin nucleus_sampling_range)

lemma caras_sampling_range:
  assumes "caras_sampling (weighted_scores, cfg) d top_p top_k w tau g = Inr (i, g')"
    and "length cfg = length weighted_scores"
  shows "i < length weighted_scores"
proof -
  obtain c g1 where n: "nucleus_sampling weighted_scores top_p top_k g = Inr (c, g1)"
    and r: "random_sampling (map Fin cfg) d g1 = Inr (i, g') \<or> (i = c \<and> g' = g1)"
    using assms(1)
    by (auto simp: caras_sampling_def Let_def split: sum.splits if_splits)
  from r show ?thesis
  proof
    assume "random_sampling (map Fin cfg) d g1 = Inr (i, g')"
    then have "i < length cfg" by (rule random_sampling_range_Fin)
    then show ?thesis using assms(2) by simp
  next
    assume "i = c \<and> g' = g1"
    then show ?thesis using nucleus_sampling_range n by blast
  qed
qed

lemma length_relieve_repetition:
  "relieve_repetition ws ts pen = Inr out \<Longrightarrow> length out = length ws"
  by (induction ws ts pen rule: relieve_repetition.induct) (auto split: if_splits)

lemma length_score_transform:
  "score_transform ws t r = Inr out \<Longrightarrow> length out = length ws"
  by (auto simp: score_transform_def Let_def length_relieve_repetition
      split: if_splits option.splits)

lemma length_select_top_p:
  "select_top_p ws p = Inr sel \<Longrightarrow> length sel \<le> length ws"
  by (auto simp: select_top_p_def Let_def length_sort_descending split: option.splits)

lemma keep_harmony_cases:
  "keep_harmony f x c g = Inr (y, g') \<Longrightarrow> (y = x \<and> g' = g) \<or> (\<exists>n. y = PyInt n)"
  by (auto simp: keep_harmony_def Let_def split: sum.splits if_splits)

lemma keep_rhythm_cases:
  "keep_rhythm f x c g = Inr (y, g') \<Longrightarrow> (y = x \<and> g' = g) \<or> (\<exists>n. y = PyInt n)"
  by (auto simp: keep_rhythm_def Let_def split: sum.splits if_splits)

lemma apply_constraints_tensor:
  assumes "apply_constraints f h (PyTensor s) c ts g = Inr (PyTensor t, g')"
  shows "t = s \<and> g' = g"
  using assms
  by (auto simp: apply_constraints_def split: sum.splits option.splits if_splits
      dest!: keep_harmony_cases keep_rhythm_cases)

lemma normalize_and_sample_range:
  "normalize_and_sample (PyTensor t) d g = Inr (i, g') \<Longrightarrow> i < length t"
  by (auto simp: normalize_and_sample_def split: if_splits dest!: random_sampling_range)

lemma normalize_and_sample_int: "normalize_and_sample (PyInt n) d g = Inl AttributeError"
  by (simp add: normalize_and_sample_def)

lemma top_p_sampling_with_constraints_range:
  assumes "top_p_sampling_with_constraints f h ws d top_p temp c ts r g = Inr (i, g')"
  shows "i < length ws"
proof -
  obtain tr sel y g1 where tr: "score_transform ws temp r = Inr tr"
    and sel: "select_top_p tr top_p = Inr sel"
    and ac: "apply_constraints f h (PyTensor sel) c ts g = Inr (y, g1)"
    and ns: "normalize_and_sample y d g1 = Inr (i, g')"
    using assms by (auto simp: top_p_sampling_with_constraints_def split: sum.splits)
  show ?thesis
  proof (cases y)
    case (PyInt n)
    then show ?thesis using ns by (simp add: normalize_and_sample_int)
  next
    case (PyTensor t)
    then have "t = sel" using ac apply_constraints_tensor by blast
    then have "i < length sel" using ns PyTensor normalize_and_sample_range by blast
    then show ?thesis using length_select_top_p[OF sel] length_score_transform[OF tr] by simp
  qed
qed

subsection \<open>The repetition penalty, entry by entry\<close>

lemma relieve_repetition_nth:
  "0 < pen \<Longrightarrow> relieve_repetition ws ts pen = Inr out \<Longrightarrow> i < length ws \<Longrightarrow>
     out ! i = (if 0 < ws ! i then ws ! i / pen ^ count_list ts i else ws ! i)"
proof (induction ws ts pen arbitrary: out rule: relieve_repetition.induct)
  case (1 ws pen)
  then show ?case by simp
next
  case (2 ws token rest pen)
  have tok: "token < length ws" using "2.prems"(2) by (simp split: if_splits)
  show ?case
  proof (cases "0 < ws ! token")
    case True
    let ?ws = "ws[token := ws ! token / pen]"
    have r: "relieve_repetition ?ws rest pen = Inr out"
      using "2.prems" True tok by simp
    have ih: "out ! i = (if 0 < ?ws ! i then ?ws ! i / pen ^ count_list rest i else ?ws ! i)"
      using "2.IH"(1) True tok "2.prems" r by simp
    show ?thesis
    proof (cases "i = token")
      case True
      have "0 < ws ! token / pen" using \<open>0 < ws ! token\<close> "2.prems"(1) by simp
      then show ?thesis using ih True tok \<open>0 < ws ! token\<close> by simp
    next
      case False
      then show ?thesis using ih by simp
    qed
  next
    case False
    have r: "relieve_repetition ws rest pen = Inr out"
      using "2.prems" False tok by simp
    have ih: "out ! i = (if 0 < ws ! i then ws ! i / pen ^ count_list rest i else ws ! i)"
      using "2.IH"(2) False tok "2.prems" r by simp
    show ?thesis using ih False by auto
  qed
qed

lemma relieve_repetition_returns:
  "pen \<noteq> 0 \<Longrightarrow> \<forall>t \<in> set ts. t < length ws \<Longrightarrow> \<exists>out. relieve_repetition ws ts pen = Inr out"
  by (induction ws ts pen rule: relieve_repetition.induct) auto

lemma relieve_repetition_le:
  assumes "1 \<le> pen" and "relieve_repetition ws ts pen = Inr out" and "i < length ws"
  shows "out ! i \<le> ws ! i"
proof (cases "0 < ws ! i")
  case True
  have one: "1 \<le> pen ^ count_list ts i" using assms(1) by simp
  then have "0 < pen ^ count_list ts i" by linarith
  then have "ws ! i / pen ^ count_list ts i \<le> ws ! i"
    using True one by (simp add: pos_divide_le_eq)
  then show ?thesis using relieve_repetition_nth[OF _ assms(2,3)] assms(1) True by simp
next
  case False
  then show ?thesis using relieve_repetition_nth[OF _ assms(2,3)] assms(1) by simp
qed

lemma relieve_repetition_sum:
  assumes "1 \<le> pen" and "relieve_repetition ws ts pen = Inr out"
  shows "sum_list out \<le> sum_list ws"
proof (rule sum_list_mono2)
  show "length out = length ws" using assms(2) by (rule length_relieve_repetition)
next
  fix i
  show "i < length out \<longrightarrow> out ! i \<le> ws ! i"
    using length_relieve_repetition[OF assms(2)] relieve_repetition_le[OF assms] by simp
qed

lemma relieve_repetition_twice: "relieve_repetition [1] [0, 0] 2 = Inr [1 / 4]"
  by simp

subsection \<open>Scatter and top-k\<close>

lemma scatter_snoc: "scatter zs (vis @ [(v, j)]) = (scatter zs vis)[j := Fin v]"
  by (simp add: scatter_def)

lemma scatter_written:
  "i < length zs \<Longrightarrow> (x, i) \<in> set vis \<Longrightarrow> \<forall>v. (v, i) \<in> set vis \<longrightarrow> v = x \<Longrightarrow>
     scatter zs vis ! i = Fin x"
proof (induction vis rule: rev_induct)
  case Nil
  then show ?case by simp
next
  case (snoc e vis)
  obtain v j where e: "e = (v, j)" by (cases e)
  have len: "i < length (scatter zs vis)" using snoc.prems(1) by (simp add: length_scatter)
  have step: "scatter zs (vis @ [e]) = (scatter zs vis)[j := Fin v]"
    unfolding e by (rule scatter_snoc)
  show ?case
  proof (cases "j = i")
    case True
    have "(v, i) \<in> set (vis @ [e])" unfolding e True by simp
    then have "v = x" using snoc.prems(3) by blast
    then show ?thesis unfolding step True using len by simp
  next
    case False
    have "(x, i) \<in> set vis" using snoc.prems(2) False unfolding e by simp
    moreover have "\<forall>v. (v, i) \<in> set vis \<longrightarrow> v = x" using snoc.prems(3) by simp
    ultimately have "scatter zs vis ! i = Fin x" using snoc.IH snoc.prems(1) by blast
    then show ?thesis unfolding step using False by simp
  qed
qed

lemma in_zip_upt: "(v, i) \<in> set (zip xs [0..<length xs]) \<longleftrightarrow> i < length xs \<and> v = xs ! i"
  by (auto simp: set_zip)

lemma scatter_kept:
  assumes "(x, i) \<in> set kept" and "set kept \<subseteq> set (zip ws [0..<length ws])"
  shows "scatter (replicate (length ws) NegInf) kept ! i = Fin (ws ! i)"
proof -
  have "(x, i) \<in> set (zip ws [0..<length ws])" using assms by (rule subsetD[rotated])
  then have i: "i < length ws" and x: "x = ws ! i" by (simp_all add: in_zip_upt)
  have uniq: "\<forall>v. (v, i) \<in> set kept \<longrightarrow> v = ws ! i"
  proof (intro allI impI)
    fix v assume "(v, i) \<in> set kept"
    then have "(v, i) \<in> set (zip ws [0..<length ws])" using assms(2) by (rule subsetD[rotated])
    then show "v = ws ! i" by (simp add: in_zip_upt)
  qed
  have len: "i < length (replicate (length ws) NegInf)" using i by simp
  have mem: "(ws ! i, i) \<in> set kept" using assms(1) x by simp
  show ?thesis using len mem uniq by (rule scatter_written)
qed

lemma scatter_sort_descending:
  "scatter (replicate (length ws) NegInf) (sort_descending ws) = map Fin ws"
proof (rule nth_equalityI)
  show "length (scatter (replicate (length ws) NegInf) (sort_descending ws)) = length (map Fin ws)"
    by (simp add: length_scatter)
next
  fix i assume "i < length (scatter (replicate (length ws) NegInf) (sort_descending ws))"
  then have i: "i < length ws" by (simp add: length_scatter)
  then have "(ws ! i, i) \<in> set (sort_descending ws)"
    by (simp add: set_sort_descending in_zip_upt)
  then show "scatter (replicate (length ws) NegInf) (sort_descending ws) ! i = map Fin ws ! i"
    using scatter_kept[of "ws ! i" i "sort_descending ws" ws] i by (simp add: set_sort_descending)
qed

lemma topk_full: "topk ws (int (length ws)) = Inr (sort_descending ws)"
  by (simp add: topk_def length_sort_descending)

lemma sum_list_pos_member:
  fixes xs :: "real list"
  shows "\<forall>x \<in> set xs. 0 \<le> x \<Longrightarrow> y \<in> set xs \<Longrightarrow> 0 < y \<Longrightarrow> 0 < sum_list xs"
proof (induction xs)
  case Nil
  then show ?case by simp
next
  case (Cons a xs)
  have "0 \<le> sum_list xs" using Cons.prems(1) by (simp add: sum_list_nonneg)
  then show ?case using Cons by (auto simp: add_pos_nonneg add_nonneg_pos)
qed

lemma exp_score_nonneg: "0 \<le> exp_score x"
  by (cases x) simp_all

lemma exp_score_sum_pos:
  assumes "Fin v \<in> set xs"
  shows "0 < sum_list (map exp_score xs)"
proof (rule sum_list_pos_member)
  show "\<forall>x \<in> set (map exp_score xs). 0 \<le> x" by (auto simp: exp_score_nonneg)
  show "exp v \<in> set (map exp_score xs)" using assms by force
  show "0 < exp v" by simp
qed

lemma exp_score_sum_nonneg: "0 \<le> sum_list (map exp_score xs)"
  by (induction xs) (simp_all add: exp_score_nonneg)

lemma softmax_nonneg: "p \<in> set (softmax xs) \<Longrightarrow> 0 \<le> p"
  by (auto simp: softmax_def Let_def exp_score_nonneg exp_score_sum_nonneg)

lemma sum_list_softmax:
  assumes "Fin v \<in> set xs"
  shows "sum_list (softmax xs) = 1"
proof -
  let ?z = "sum_list (map exp_score xs)"
  have z: "0 < ?z" using assms by (rule exp_score_sum_pos)
  have "sum_list (softmax xs) = (\<Sum>x\<leftarrow>xs. exp_score x * inverse ?z)"
    by (simp add: softmax_def divide_inverse)
  also have "\<dots> = ?z * inverse ?z" by (simp only: sum_list_mult_const)
  finally show ?thesis using z by simp
qed

lemma random_sampling_returns:
  assumes "Fin v \<in> set xs"
  shows "\<exists>i g'. random_sampling xs d g = Inr (i, g')"
proof -
  have "\<not> (\<exists>p \<in> set (softmax xs). p < 0)" using softmax_nonneg by (auto simp: not_less)
  moreover have "\<not> sum_list (softmax xs) \<le> 0" using sum_list_softmax[OF assms] by simp
  ultimately show ?thesis
    by (simp add: random_sampling_def multinomial_def split: prod.splits)
qed

lemma topk_sampling_returns:
  assumes "1 \<le> top_k" and "top_k \<le> int (length ws)"
  shows "\<exists>i g'. topk_sampling ws d top_k g = Inr (i, g')"
proof -
  let ?kept = "take (nat top_k) (sort_descending ws)"
  let ?masked = "scatter (replicate (length ws) NegInf) ?kept"
  have tk: "topk ws top_k = Inr ?kept" using assms by (simp add: topk_def)
  have "length ?kept = nat top_k" using assms by (simp add: length_sort_descending)
  then have "0 < length ?kept" using assms(1) by simp
  then have mem0: "?kept ! 0 \<in> set ?kept" by (rule nth_mem)
  obtain x i where "?kept ! 0 = (x, i)" by (cases "?kept ! 0")
  then have xi: "(x, i) \<in> set ?kept" using mem0 by simp
  have sub: "set ?kept \<subseteq> set (zip ws [0..<length ws])"
    using set_take_subset[of "nat top_k" "sort_descending ws"]
    by (simp only: set_sort_descending)
  have "(x, i) \<in> set (zip ws [0..<length ws])" using xi sub by (rule subsetD[rotated])
  then have i: "i < length ?masked" by (simp add: in_zip_upt length_scatter)
  have "?masked ! i = Fin (ws ! i)" using xi sub by (rule scatter_kept)
  then have "Fin (ws ! i) \<in> set ?masked" using nth_mem[OF i] by simp
  then obtain j g' where "random_sampling ?masked d g = Inr (j, g')"
    using random_sampling_returns by blast
  then have "topk_sampling ws d top_k g = Inr (j, g')"
    by (simp add: topk_sampling_def tk)
  then show ?thesis by blast
qed

lemma topk_sampling_zeros2:
  "topk_sampling [0, 0] d 2 (rng_of 8388608) = Inr (1, rng_of 8388608)"
proof -
  have "topk_sampling [0, 0] d (int (length [0, 0 :: real])) (rng_of 8388608)
          = random_sampling (map Fin [0, 0]) d (rng_of 8388608)"
    by (simp only: topk_sampling_def topk_full scatter_sort_descending Let_def sum.case)
  then show ?thesis by (simp add: random_sampling_zeros2)
qed

subsection \<open>The stages of nucleus sampling with constraints\<close>

lemma score_transform_zero: "score_transform ws 0 r = Inl ZeroDivisionError"
  by (simp add: score_transform_def)

lemma powr_sum_pos:
  fixes ws :: "real list"
  assumes "ws \<noteq> []" and "\<forall>x \<in> set ws. 0 < x"
  shows "0 < sum_list (map (\<lambda>x. x powr a) ws)"
proof -
  obtain y where y: "y \<in> set ws" using assms(1) by (cases ws) auto
  show ?thesis
  proof (rule sum_list_pos_member)
    show "\<forall>x \<in> set (map (\<lambda>x. x powr a) ws). 0 \<le> x" by auto
    show "y powr a \<in> set (map (\<lambda>x. x powr a) ws)" using y by simp
    have "0 < y" using y assms(2) by blast
    then show "0 < y powr a" by simp
  qed
qed

lemma score_transform_negative:
  assumes "temperature < 0" and "\<forall>x \<in> set ws. 0 < x"
  shows "score_transform ws temperature None =
           Inr (map (\<lambda>x. x / sum_list (map (\<lambda>y. y powr (1 / temperature)) ws))
                  (map (\<lambda>y. y powr (1 / temperature)) ws))"
proof -
  have a: "temperature \<noteq> 0" using assms(1) by simp
  have b: "\<not> (\<exists>x \<in> set ws. x < 0 \<or> (x = 0 \<and> temperature < 0))"
    using assms(2) by fastforce
  have c: "\<not> (map (\<lambda>y. y powr (1 / temperature)) ws \<noteq> []
                \<and> sum_list (map (\<lambda>y. y powr (1 / temperature)) ws) = 0)"
    using powr_sum_pos[OF _ assms(2), of "1 / temperature"] by auto
  show ?thesis unfolding score_transform_def Let_def using a b c by simp
qed

lemma score_transform_halves_neg:
  "score_transform [1 / 2, 1 / 2] (- 1) None = Inr [1 / 2, 1 / 2]"
proof -
  have p: "(1 / 2 :: real) powr (- 1) = 2" by (simp add: powr_minus_divide)
  have t: "(- 1 :: real) < 0" by simp
  have w: "\<forall>x \<in> set [1 / 2, 1 / 2 :: real]. 0 < x" by simp
  show ?thesis using score_transform_negative[OF t w] p by simp
qed

lemma select_top_p_halves: "select_top_p [1 / 2, 1 / 2] (17 / 20) = Inr [1 / 2, 1 / 2]"
  by (simp add: select_top_p_def sort_descending_halves)

lemma apply_constraints_none: "apply_constraints f h x None None g = Inr (x, g)"
  by (simp add: apply_constraints_def)

lemma softmax_half_half: "softmax [Fin (1 / 2), Fin (1 / 2)] = [1 / 2, 1 / 2]"
  by (simp add: softmax_def)

lemma normalize_and_sample_halves:
  "normalize_and_sample (PyTensor [1 / 2, 1 / 2]) d (rng_of 8388608) = Inr (1, rng_of 8388608)"
  by (simp add: normalize_and_sample_def random_sampling_def softmax_half_half multinomial_rng_of)

lemma top_p_negative_temperature:
  "top_p_sampling_with_constraints f h [1 / 2, 1 / 2] d (17 / 20) (- 1) None None None
     (rng_of 8388608) = Inr (1, rng_of 8388608)"
  by (simp add: top_p_sampling_with_constraints_def score_transform_halves_neg
      select_top_p_halves apply_constraints_none normalize_and_sample_halves)


lemma score_transform_one:
  "score_transform [1 / 10, 9 / 10] 1 None = Inr [1 / 10, 9 / 10]"
  by (simp add: score_transform_def)

lemma score_transform_one3:
  "score_transform [1 / 2, 3 / 10, 1 / 5] 1 None = Inr [1 / 2, 3 / 10, 1 / 5]"
  by (simp add: score_transform_def)

lemma sort_descending_tenths:
  "sort_descending [1 / 10, 9 / 10] = [(9 / 10, 1), (1 / 10, 0)]"
  by (simp add: sort_descending_def upt_rec)

lemma sort_descending_three:
  "sort_descending [1 / 2, 3 / 10, 1 / 5] = [(1 / 2, 0), (3 / 10, 1), (1 / 5, 2)]"
  by (simp add: sort_descending_def upt_rec)

lemma select_top_p_tenths: "select_top_p [1 / 10, 9 / 10] (17 / 20) = Inr [9 / 10]"
  by (simp add: select_top_p_def sort_descending_tenths)

lemma select_top_p_three:
  "select_top_p [1 / 2, 3 / 10, 1 / 5] (17 / 20) = Inr [1 / 2, 3 / 10, 1 / 5]"
  by (simp add: select_top_p_def sort_descending_three)

lemma normalize_and_sample_single:
  "normalize_and_sample (PyTensor [9 / 10]) d (rng_of 8388608) = Inr (0, rng_of 8388608)"
  by (simp add: normalize_and_sample_def random_sampling_def softmax_def multinomial_rng_of)

lemma top_p_rank_example:
  "top_p_sampling_with_constraints f h [1 / 10, 9 / 10] d (17 / 20) 1 None None None
     (rng_of 8388608) = Inr (0, rng_of 8388608)"
  by (simp add: top_p_sampling_with_constraints_def score_transform_one
      select_top_p_tenths apply_constraints_none normalize_and_sample_single)

lemma keep_harmony_three:
  "keep_harmony (\<lambda>c. [0]) (PyTensor [1 / 2, 3 / 10, 1 / 5]) ''C'' g = Inl RuntimeError"
  by (simp add: keep_harmony_def)

lemma keep_harmony_single:
  "keep_harmony (\<lambda>c. [Suc 0]) (PyTensor [9 / 10]) ''C'' (rng_of n) = Inr (PyInt (Suc 0), rng_of n)"
  by (simp add: keep_harmony_def random_choice_def rng_of_def)

lemma keep_rhythm_single:
  "keep_rhythm (\<lambda>c. [Suc 0]) (PyTensor [9 / 10]) ''4/4'' (rng_of n) = Inr (PyInt (Suc 0), rng_of n)"
  by (simp add: keep_rhythm_def random_choice_def rng_of_def)

lemma top_p_constraints_unchanged:
  assumes "top_p_sampling_with_constraints f h ws d top_p temp c ts r g = Inr res"
  shows "top_p_sampling_with_constraints f h ws d top_p temp None None r g = Inr res"
proof -
  obtain tr sel y g1 where tr: "score_transform ws temp r = Inr tr"
    and sel: "select_top_p tr top_p = Inr sel"
    and ac: "apply_constraints f h (PyTensor sel) c ts g = Inr (y, g1)"
    and ns: "normalize_and_sample y d g1 = Inr res"
    using assms by (auto simp: top_p_sampling_with_constraints_def split: sum.splits)
  obtain t where y: "y = PyTensor t"
    using ns by (cases y) (simp_all add: normalize_and_sample_int)
  have "t = sel \<and> g1 = g" using ac unfolding y by (rule apply_constraints_tensor)
  then have "normalize_and_sample (PyTensor sel) d g = Inr res" using ns y by simp
  then show ?thesis
    by (simp add: top_p_sampling_with_constraints_def tr sel apply_constraints_none)
qed

subsection \<open>The sorted probabilities and the candidate prefix\<close>

lemma mset_sort_descending: "mset (sort_descending xs) = mset (zip xs [0..<length xs])"
  by (simp add: sort_descending_def)

lemma sorted_sort_descending: "sorted_wrt (\<lambda>a b. fst b \<le> fst a) (sort_descending xs)"
proof -
  have "sorted (map (\<lambda>(v, i). - v) (sort_descending xs))"
    unfolding sort_descending_def by (rule sorted_sort_key)
  then have "sorted_wrt (\<lambda>a b. (case a of (v, i) \<Rightarrow> - v) \<le> (case b of (v, i) \<Rightarrow> - v))
               (sort_descending xs)"
    by (simp only: sorted_wrt_map)
  then show ?thesis
    by (rule sorted_wrt_mono_rel[rotated]) (auto split: prod.splits)
qed

lemma stable_sort_descending:
  "filter (\<lambda>e. fst e = v) (sort_descending xs) = filter (\<lambda>e. fst e = v) (zip xs [0..<length xs])"
proof -
  have eq: "(\<lambda>e :: real \<times> nat. fst e = v) = (\<lambda>e. (case e of (v, i) \<Rightarrow> - v) = - v)"
    by (auto simp: fun_eq_iff)
  show ?thesis unfolding eq sort_descending_def by (rule sort_key_stable)
qed

lemma sum_fst_sort_descending: "sum_list (map fst (sort_descending xs)) = sum_list xs"
proof -
  have "mset (map fst (sort_descending xs)) = mset (map fst (zip xs [0..<length xs]))"
    by (simp only: mset_map mset_sort_descending)
  then have "sum_mset (mset (map fst (sort_descending xs)))
               = sum_mset (mset (map fst (zip xs [0..<length xs])))"
    by (rule arg_cong)
  then have "sum_list (map fst (sort_descending xs)) = sum_list (map fst (zip xs [0..<length xs]))"
    by (simp only: sum_mset_sum_list)
  then show ?thesis by simp
qed

lemma nucleus_loop_spec:
  "\<exists>m \<le> length es.
      nucleus_loop es top_p top_k (sum_list (map fst acc)) acc = acc @ take m es
      \<and> (\<forall>j < m. sum_list (map fst (acc @ take j es)) < top_p \<and> int (length acc + j) < top_k)
      \<and> (m = length es
           \<or> \<not> (sum_list (map fst (acc @ take m es)) < top_p \<and> int (length acc + m) < top_k))"
proof (induction es arbitrary: acc)
  case Nil
  then show ?case by simp
next
  case (Cons e es)
  let ?c = "sum_list (map fst acc)"
  show ?case
  proof (cases "?c < top_p \<and> int (length acc) < top_k")
    case False
    then show ?thesis by (intro exI[of _ 0]) auto
  next
    case True
    have c': "?c + fst e = sum_list (map fst (acc @ [e]))" by simp
    obtain m where m: "m \<le> length es"
      and r: "nucleus_loop es top_p top_k (sum_list (map fst (acc @ [e]))) (acc @ [e])
                = (acc @ [e]) @ take m es"
      and before: "\<forall>j < m. sum_list (map fst ((acc @ [e]) @ take j es)) < top_p
                       \<and> int (length (acc @ [e]) + j) < top_k"
      and stop: "m = length es
           \<or> \<not> (sum_list (map fst ((acc @ [e]) @ take m es)) < top_p
                 \<and> int (length (acc @ [e]) + m) < top_k)"
      using Cons.IH[of "acc @ [e]"] by blast
    have "nucleus_loop (e # es) top_p top_k ?c acc = acc @ take (Suc m) (e # es)"
      using True r by (simp only: nucleus_loop.simps c' if_True) simp
    moreover have "\<forall>j < Suc m. sum_list (map fst (acc @ take j (e # es))) < top_p
                       \<and> int (length acc + j) < top_k"
    proof (intro allI impI)
      fix j assume j: "j < Suc m"
      show "sum_list (map fst (acc @ take j (e # es))) < top_p \<and> int (length acc + j) < top_k"
      proof (cases j)
        case 0
        then show ?thesis using True by simp
      next
        case (Suc j')
        then have "j' < m" using j by simp
        then show ?thesis using before Suc by (simp add: add.assoc)
      qed
    qed
    moreover have "Suc m = length (e # es)
           \<or> \<not> (sum_list (map fst (acc @ take (Suc m) (e # es))) < top_p
                 \<and> int (length acc + Suc m) < top_k)"
      using stop by (simp add: add.assoc)
    ultimately show ?thesis using m by (intro exI[of _ "Suc m"]) simp
  qed
qed

lemma nucleus_loop_spec0:
  "\<exists>m \<le> length es.
      nucleus_loop es top_p top_k 0 [] = take m es
      \<and> (\<forall>j < m. sum_list (map fst (take j es)) < top_p \<and> int j < top_k)
      \<and> (m = length es \<or> \<not> (sum_list (map fst (take m es)) < top_p \<and> int m < top_k))"
  using nucleus_loop_spec[of es top_p top_k "[]"] by simp

lemma nucleus_candidates_spec:
  fixes weighted_scores top_p top_k
  defines "S \<equiv> sort_descending (softmax (map Fin weighted_scores))"
    and "C \<equiv> nucleus_candidates weighted_scores top_p top_k"
  shows "C = take (length C) S"
    and "\<forall>j < length C. sum_list (map fst (take j S)) < top_p \<and> int j < top_k"
    and "length C = length weighted_scores \<or> top_p \<le> sum_list (map fst C) \<or> top_k \<le> int (length C)"
proof -
  obtain m where m: "m \<le> length S"
    and r: "nucleus_loop S top_p top_k 0 [] = take m S"
    and before: "\<forall>j < m. sum_list (map fst (take j S)) < top_p \<and> int j < top_k"
    and stop: "m = length S \<or> \<not> (sum_list (map fst (take m S)) < top_p \<and> int m < top_k)"
    using nucleus_loop_spec0[of S top_p top_k] by blast
  have C: "C = take m S" using r by (simp only: C_def S_def nucleus_candidates_def)
  have len: "length C = m" unfolding C using m by simp
  have lenS: "length S = length weighted_scores"
    by (simp add: S_def length_sort_descending length_softmax)
  show "C = take (length C) S" unfolding len by (rule C)
  show "\<forall>j < length C. sum_list (map fst (take j S)) < top_p \<and> int j < top_k"
    unfolding len by (rule before)
  from stop show "length C = length weighted_scores \<or> top_p \<le> sum_list (map fst C)
      \<or> top_k \<le> int (length C)"
  proof
    assume "m = length S"
    then show ?thesis using len lenS by simp
  next
    assume "\<not> (sum_list (map fst (take m S)) < top_p \<and> int m < top_k)"
    then have "top_p \<le> sum_list (map fst (take m S)) \<or> top_k \<le> int m"
      by (simp add: not_less)
    then have "top_p \<le> sum_list (map fst C) \<or> top_k \<le> int (length C)"
      by (simp only: len flip: C)
    then show ?thesis by blast
  qed
qed


lemma nucleus_candidates_valid:
  assumes "weighted_scores \<noteq> []" and "0 < top_p" and "top_p \<le> 1" and "1 \<le> top_k"
  defines "C \<equiv> nucleus_candidates weighted_scores top_p top_k"
  shows "C \<noteq> [] \<and> (top_p \<le> sum_list (map fst C) \<or> int (length C) = top_k)"
proof -
  let ?S = "sort_descending (softmax (map Fin weighted_scores))"
  have pre: "C = take (length C) ?S"
    and before: "\<forall>j < length C. sum_list (map fst (take j ?S)) < top_p \<and> int j < top_k"
    and stop: "length C = length weighted_scores \<or> top_p \<le> sum_list (map fst C)
                 \<or> top_k \<le> int (length C)"
    unfolding C_def by (rule nucleus_candidates_spec)+
  have lenS: "length ?S = length weighted_scores"
    by (simp add: length_sort_descending length_softmax)
  have "Fin (hd weighted_scores) \<in> set (map Fin weighted_scores)" using assms(1) by simp
  then have one: "sum_list (softmax (map Fin weighted_scores)) = 1" by (rule sum_list_softmax)
  have ne: "C \<noteq> []"
  proof
    assume "C = []"
    then show False using stop assms(1,2,4) by simp
  qed
  have "top_p \<le> sum_list (map fst C) \<or> int (length C) = top_k"
    using stop
  proof (elim disjE)
    assume "length C = length weighted_scores"
    then have "C = ?S" using pre lenS by simp
    then have "sum_list (map fst C) = 1" using one by (simp add: sum_fst_sort_descending)
    then show ?thesis using assms(3) by simp
  next
    assume "top_p \<le> sum_list (map fst C)"
    then show ?thesis by simp
  next
    assume k: "top_k \<le> int (length C)"
    have "length C - 1 < length C" using ne by simp
    then have "int (length C - 1) < top_k" using before by blast
    then show ?thesis using k by linarith
  qed
  then show ?thesis using ne by simp
qed

subsection \<open>The example of four scores\<close>

lemma sort_descending_four:
  assumes "p3 \<le> p2" "p2 \<le> p1" "p1 \<le> p0"
  shows "sort_descending [p0, p1, p2, p3] = [(p0, 0), (p1, 1), (p2, 2), (p3, 3)]"
proof -
  have z: "zip [p0, p1, p2, p3] [0..<length [p0, p1, p2, p3]] = [(p0, 0), (p1, 1), (p2, 2), (p3, 3)]"
    by (simp add: upt_rec)
  have "sorted (map (\<lambda>(v, i :: nat). - v) [(p0, 0), (p1, 1), (p2, 2), (p3, 3)])"
    using assms by simp
  then show ?thesis unfolding sort_descending_def z by (rule sort_key_id_if_sorted)
qed

lemma nucleus_loop_four_all:
  assumes "p0 < 4 / 5" "p0 + p1 < 4 / 5" "p0 + p1 + p2 < 4 / 5"
  shows "nucleus_loop [(p0, 0), (p1, 1), (p2, 2), (p3, 3)] (4 / 5) 25 0 []
           = [(p0, 0), (p1, 1), (p2, 2), (p3, 3)]"
  using assms by simp

lemma exp_tenth_bounds: "1 \<le> exp (1 / 10 :: real) \<and> exp (1 / 10 :: real) \<le> 111 / 100"
proof -
  have "exp (1 / 10 :: real) \<le> 1 + 1 / 10 + (1 / 10)\<^sup>2" by (rule exp_bound) simp_all
  then show ?thesis by (simp add: power2_eq_square)
qed

lemma nucleus_candidates_example:
  "map snd (nucleus_candidates [2 / 5, 3 / 10, 1 / 5, 1 / 10] (4 / 5) 25) = [0, 1, 2, 3]"
proof -
  define a :: real where "a = exp (1 / 10)"
  define z where "z = a ^ 4 + a ^ 3 + a ^ 2 + a"
  have a1: "1 \<le> a" and a2: "a \<le> 111 / 100" using exp_tenth_bounds by (simp_all add: a_def)
  have a0: "0 < a" using a1 by simp
  have e2: "exp (1 / 5 :: real) = a ^ 2" using exp_of_nat_mult[of 2 "1 / 10 :: real"] by (simp add: a_def)
  have e3: "exp (3 / 10 :: real) = a ^ 3" using exp_of_nat_mult[of 3 "1 / 10 :: real"] by (simp add: a_def)
  have e4: "exp (2 / 5 :: real) = a ^ 4" using exp_of_nat_mult[of 4 "1 / 10 :: real"] by (simp add: a_def)
  have sm: "softmax (map Fin [2 / 5, 3 / 10, 1 / 5, 1 / 10]) = [a ^ 4 / z, a ^ 3 / z, a ^ 2 / z, a / z]"
    by (simp add: softmax_def Let_def e2 e3 e4 z_def add.assoc a_def[symmetric])
  have p2: "0 < a ^ 2" and p3: "0 < a ^ 3" and p4: "0 < a ^ 4" using a0 by simp_all
  have z0: "0 < z" unfolding z_def using a0 p2 p3 p4 by linarith
  have m2: "a ^ 2 \<le> (111 / 100) ^ 2" and m3: "a ^ 3 \<le> (111 / 100) ^ 3"
    using a0 a2 by (simp_all add: power_mono)
  have b: "a ^ 3 + a ^ 2 + a < 4" using m2 m3 a2 by (simp add: power2_eq_square power3_eq_cube)
  have "a * (a ^ 3 + a ^ 2 + a) < a * 4" using b a0 by (rule mult_strict_left_mono)
  moreover have "a * (a ^ 3 + a ^ 2 + a) = a ^ 4 + a ^ 3 + a ^ 2"
    by (simp add: power4_eq_xxxx power3_eq_cube power2_eq_square algebra_simps)
  ultimately have c: "a ^ 4 + a ^ 3 + a ^ 2 < 4 * a" by simp
  have o1: "a \<le> a ^ 2" using a1 by (simp add: power2_eq_square)
  have o2: "a ^ 2 \<le> a ^ 3" using a1 by (simp add: power_increasing)
  have o3: "a ^ 3 \<le> a ^ 4" using a1 by (simp add: power_increasing)
  have s3: "a ^ 4 / z + a ^ 3 / z + a ^ 2 / z < 4 / 5"
  proof -
    have "a ^ 4 / z + a ^ 3 / z + a ^ 2 / z = (a ^ 4 + a ^ 3 + a ^ 2) / z"
      by (simp add: add_divide_distrib)
    also have "\<dots> < 4 / 5" using z0 c by (simp add: pos_divide_less_eq z_def)
    finally show ?thesis .
  qed
  have q2: "0 < a ^ 2 / z" and q3: "0 < a ^ 3 / z" using p2 p3 z0 by simp_all
  have s2: "a ^ 4 / z + a ^ 3 / z < 4 / 5" using s3 q2 by linarith
  have s1: "a ^ 4 / z < 4 / 5" using s2 q3 by linarith
  have srt: "sort_descending [a ^ 4 / z, a ^ 3 / z, a ^ 2 / z, a / z]
      = [(a ^ 4 / z, 0), (a ^ 3 / z, 1), (a ^ 2 / z, 2), (a / z, 3)]"
    using o1 o2 o3 z0 by (intro sort_descending_four divide_right_mono) simp_all
  show ?thesis
    unfolding nucleus_candidates_def sm srt
    by (simp only: nucleus_loop_four_all[OF s1 s2 s3]) simp
qed

lemma nucleus_candidates_log_example:
  "nucleus_candidates [ln (2 / 5), ln (3 / 10), ln (1 / 5), ln (1 / 10)] (4 / 5) 25
     = [(2 / 5, 0), (3 / 10, 1), (1 / 5, 2)]"
proof -
  have sm: "softmax (map Fin [ln (2 / 5), ln (3 / 10), ln (1 / 5), ln (1 / 10)])
      = [2 / 5, 3 / 10, 1 / 5, 1 / 10]"
    by (simp add: softmax_def)
  have srt: "sort_descending [2 / 5, 3 / 10, 1 / 5, 1 / 10 :: real]
      = [(2 / 5, 0), (3 / 10, 1), (1 / 5, 2), (1 / 10, 3)]"
    by (rule sort_descending_four) simp_all
  show ?thesis unfolding nucleus_candidates_def sm srt by simp
qed


lemma nucleus_sampling_member:
  assumes "nucleus_sampling weighted_scores top_p top_k g = Inr (i, g')"
  shows "i \<in> snd ` set (nucleus_candidates weighted_scores top_p top_k)"
proof -
  let ?c = "nucleus_candidates weighted_scores top_p top_k"
  obtain j where j: "multinomial (map fst ?c) g = Inr (j, g')" and i: "i = snd (?c ! j)"
    using assms by (auto simp: nucleus_sampling_def Let_def split: sum.splits)
  have "j < length ?c" using multinomial_range[OF j] by simp
  then have "?c ! j \<in> set ?c" by simp
  then show ?thesis unfolding i by (rule imageI)
qed

lemma nucleus_candidates_zeros2_cap: "nucleus_candidates [0, 0] (4 / 5) 1 = [(1 / 2, 0)]"
  by (simp add: nucleus_candidates_def softmax_zeros2 sort_descending_halves)

lemma nucleus_sampling_zeros2_cap:
  "nucleus_sampling [0, 0] (4 / 5) 1 (rng_of 8388608) = Inr (0, rng_of 8388608)"
  by (simp add: nucleus_sampling_def nucleus_candidates_zeros2_cap multinomial_rng_of)

lemma float_product_25_028_normal: "float_product 25 (7 / 25) = 7881299347898369 / 2 ^ 50"
  using float_product_25_028 by simp

section \<open>Nucleus selection\<close>

text \<open>
  Claim C1, amended. For every score vector, \<^verbatim>\<open>nucleus_sampling\<close> applies softmax to the
  full vector and sorts the probabilities, each with its index, in descending order,
  equal probabilities in their original order. It then collects entries one by one while
  the accumulated mass is below \<open>top_p\<close> and fewer than \<open>top_k\<close> entries have been
  collected. So the candidate list is a prefix of the sorted list; before each collected
  entry the mass was below \<open>top_p\<close> and the count below \<open>top_k\<close>; and collecting stops
  only at the end of the vector, when the mass has reached \<open>top_p\<close>, or when \<open>top_k\<close>
  entries are collected. For a non-empty vector, \<open>0 < top_p \<le> 1\<close> and \<open>top_k \<ge> 1\<close>
  the candidate list is not empty and either its mass has reached \<open>top_p\<close> or it has
  exactly \<open>top_k\<close> entries. The returned token is the index of a candidate.

  The example of the claim has to be amended. The input is passed through softmax, so for
  the input \<open>[0.4, 0.3, 0.2, 0.1]\<close> with \<open>top_p = 0.8\<close> and \<open>top_k = 25\<close> the
  probabilities are about 0.289, 0.261, 0.236 and 0.214, the mass of the first three is
  below 0.8, and the candidates are all four entries. The three entries of weights 0.4, 0.3
  and 0.2 are the candidates when these are the probabilities themselves, that is, for the
  input \<open>[ln 0.4, ln 0.3, ln 0.2, ln 0.1]\<close>.
\<close>

theorem nucleus_selection:
  "(let probs = softmax (map Fin weighted_scores);
        S = sort_descending probs;
        C = nucleus_candidates weighted_scores top_p top_k
    in mset S = mset (zip probs [0..<length probs])
       \<and> sorted_wrt (\<lambda>a b. fst b \<le> fst a) S
       \<and> (\<forall>v. filter (\<lambda>e. fst e = v) S = filter (\<lambda>e. fst e = v) (zip probs [0..<length probs]))
       \<and> C = take (length C) S
       \<and> (\<forall>j < length C. sum_list (map fst (take j S)) < top_p \<and> int j < top_k)
       \<and> (length C = length weighted_scores \<or> top_p \<le> sum_list (map fst C)
            \<or> top_k \<le> int (length C))
       \<and> (weighted_scores \<noteq> [] \<and> 0 < top_p \<and> top_p \<le> 1 \<and> 1 \<le> top_k \<longrightarrow>
            C \<noteq> [] \<and> (top_p \<le> sum_list (map fst C) \<or> int (length C) = top_k))
       \<and> (\<forall>i g'. nucleus_sampling weighted_scores top_p top_k g = Inr (i, g') \<longrightarrow> i \<in> snd ` set C))
   \<and> map snd (nucleus_candidates [4 / 10, 3 / 10, 2 / 10, 1 / 10] (8 / 10) 25) = [0, 1, 2, 3]
   \<and> nucleus_candidates [ln (4 / 10), ln (3 / 10), ln (2 / 10), ln (1 / 10)] (8 / 10) 25
        = [(4 / 10, 0), (3 / 10, 1), (2 / 10, 2)]"
proof -
  let ?probs = "softmax (map Fin weighted_scores)"
  let ?S = "sort_descending ?probs"
  let ?C = "nucleus_candidates weighted_scores top_p top_k"
  have 1: "mset ?S = mset (zip ?probs [0..<length ?probs])" by (rule mset_sort_descending)
  have 2: "sorted_wrt (\<lambda>a b. fst b \<le> fst a) ?S" by (rule sorted_sort_descending)
  have 3: "\<forall>v. filter (\<lambda>e. fst e = v) ?S = filter (\<lambda>e. fst e = v) (zip ?probs [0..<length ?probs])"
    by (intro allI stable_sort_descending)
  have 4: "?C = take (length ?C) ?S"
    and 5: "\<forall>j < length ?C. sum_list (map fst (take j ?S)) < top_p \<and> int j < top_k"
    and 6: "length ?C = length weighted_scores \<or> top_p \<le> sum_list (map fst ?C)
            \<or> top_k \<le> int (length ?C)"
    by (rule nucleus_candidates_spec)+
  have 7: "weighted_scores \<noteq> [] \<and> 0 < top_p \<and> top_p \<le> 1 \<and> 1 \<le> top_k \<longrightarrow>
            ?C \<noteq> [] \<and> (top_p \<le> sum_list (map fst ?C) \<or> int (length ?C) = top_k)"
    using nucleus_candidates_valid by blast
  have 8: "\<forall>i g'. nucleus_sampling weighted_scores top_p top_k g = Inr (i, g') \<longrightarrow> i \<in> snd ` set ?C"
    using nucleus_sampling_member by blast
  have 9: "map snd (nucleus_candidates [4 / 10, 3 / 10, 2 / 10, 1 / 10] (8 / 10) 25) = [0, 1, 2, 3]"
    using nucleus_candidates_example by simp
  have 10: "nucleus_candidates [ln (4 / 10), ln (3 / 10), ln (2 / 10), ln (1 / 10)] (8 / 10) 25
        = [(4 / 10, 0), (3 / 10, 1), (2 / 10, 2)]"
    using nucleus_candidates_log_example by simp
  show ?thesis unfolding Let_def using 1 2 3 4 5 6 7 8 9 10 by (intro conjI)
qed

text \<open>
  Two equally weighted tokens with \<open>top_p = 0.8\<close>: under \<open>top_k = 25\<close> both are
  candidates and the mass 1 has reached \<open>top_p\<close>; under \<open>top_k = 1\<close> the only candidate
  is token 0, with mass 0.5.
\<close>

theorem nucleus_selection_witness:
  "[0, 0 :: real] \<noteq> [] \<and> (0 :: real) < 4 / 5 \<and> (4 / 5 :: real) \<le> 1 \<and> (1 :: int) \<le> 25
   \<and> nucleus_candidates [0, 0] (4 / 5) 25 = [(1 / 2, 0), (1 / 2, 1)]
   \<and> (4 / 5 :: real) \<le> sum_list (map fst [(1 / 2, 0 :: nat), (1 / 2, 1)])
   \<and> nucleus_candidates [0, 0] (4 / 5) 1 = [(1 / 2, 0)]
   \<and> int (length [(1 / 2 :: real, 0 :: nat)]) = 1
   \<and> nucleus_sampling [0, 0] (4 / 5) 25 (rng_of 8388608) = Inr (1, rng_of 8388608)
   \<and> (1 :: nat) \<in> snd ` set [(1 / 2 :: real, 0), (1 / 2, 1)]"
  using nucleus_selection[of "[0, 0]" "4 / 5" 25 "rng_of 8388608"]
        nucleus_selection[of "[0, 0]" "4 / 5" 1 "rng_of 8388608"]
  by (simp add: nucleus_candidates_zeros2 nucleus_candidates_zeros2_cap nucleus_sampling_zeros2)

text \<open>
  As stated, the claim has the candidates of \<open>[0.4, 0.3, 0.2, 0.1]\<close> be the first three
  entries.
\<close>

theorem nucleus_example_counterexample:
  "map snd (nucleus_candidates [4 / 10, 3 / 10, 2 / 10, 1 / 10] (8 / 10) 25) \<noteq> [0, 1, 2]"
  using nucleus_candidates_example by simp

section \<open>The Repetition Guard\<close>

text \<open>
  Claim C2, amended. Whenever the nucleus draw of \<^verbatim>\<open>ras_sampling\<close> yields a candidate
  \<open>c\<close>, for every history, every window size \<open>0 \<le> win_size < 2 ^ 53\<close> and every rate
  \<open>tau_r\<close> of magnitude at most \<open>2 ^ 900\<close> (so that the window size is a float and nothing
  overflows), the result is \<open>c\<close> unless the number of occurrences of \<open>c\<close> among the last
  \<open>win_size\<close> entries of the history is at least \<open>win_size * tau_r\<close> as Python computes
  it: the float product of \<open>win_size\<close> and the float of \<open>tau_r\<close>, rounded to the nearest
  float. In that case the result is a draw from the full primary vector.
  \<^verbatim>\<open>caras_sampling\<close>, given the pair (primary, guidance), decides in the same way and
  draws from the guidance vector instead.
\<close>

theorem repetition_guard:
  assumes "nucleus_sampling weighted_scores top_p top_k g = Inr (c, g')"
    and "0 \<le> win_size" and "win_size < 2 ^ 53" and "\<bar>tau_r\<bar> \<le> 2 ^ 900"
  shows "ras_sampling weighted_scores decoded_tokens top_p top_k win_size tau_r g =
           (if float_product win_size tau_r
                 \<le> real (count_list (last_entries (nat win_size) decoded_tokens) c)
            then random_sampling (map Fin weighted_scores) decoded_tokens g'
            else Inr (c, g'))
       \<and> caras_sampling (weighted_scores, cfg_weighted_scores) decoded_tokens top_p top_k
             win_size tau_r g =
           (if float_product win_size tau_r
                 \<le> real (count_list (last_entries (nat win_size) decoded_tokens) c)
            then random_sampling (map Fin cfg_weighted_scores) decoded_tokens g'
            else Inr (c, g'))"
proof (cases "win_size = 0")
  case True
  then show ?thesis
    using assms(1) by (simp add: ras_sampling_def caras_sampling_def float_product_zero_left)
next
  case False
  then have "0 < win_size" using assms(2) by simp
  then show ?thesis
    using assms(1) by (simp add: ras_sampling_def caras_sampling_def window_nonneg)
qed

text \<open>
  Two equally weighted tokens and a generator at the midpoint: the candidate is token 1.
  With the history \<open>[1, 1, 1]\<close> and \<open>10 * 0.1\<close>, which is the float 1, the guard falls
  back, to token 1 from the primary vector and to token 0 from the guidance vector
  \<open>[ln 3, 0]\<close>. With the history \<open>[1, 0, 0]\<close> and \<open>10 * 0.2\<close>, the float 2, the
  candidate is returned. With seven occurrences and \<open>25 * 0.28\<close>, which is the float next
  above 7, the candidate is returned as well.
\<close>

theorem repetition_guard_witness:
  "nucleus_sampling [0, 0] (4 / 5) 25 (rng_of 8388608) = Inr (1, rng_of 8388608)
   \<and> (0::int) \<le> 10 \<and> (10::int) < 2 ^ 53 \<and> \<bar>1 / 10 :: real\<bar> \<le> 2 ^ 900
   \<and> float_product 10 (1 / 10) = 1
   \<and> ras_sampling [0, 0] [1, 1, 1] (4 / 5) 25 10 (1 / 10) (rng_of 8388608)
       = Inr (1, rng_of 8388608)
   \<and> caras_sampling ([0, 0], [ln 3, 0]) [1, 1, 1] (4 / 5) 25 10 (1 / 10) (rng_of 8388608)
       = Inr (0, rng_of 8388608)
   \<and> float_product 10 (1 / 5) = 2
   \<and> ras_sampling [0, 0] [1, 0, 0] (4 / 5) 25 10 (1 / 5) (rng_of 8388608)
       = Inr (1, rng_of 8388608)
   \<and> caras_sampling ([0, 0], [ln 3, 0]) [1, 0, 0] (4 / 5) 25 10 (1 / 5) (rng_of 8388608)
       = Inr (1, rng_of 8388608)
   \<and> (0::int) \<le> 25 \<and> (25::int) < 2 ^ 53 \<and> \<bar>28 / 100 :: real\<bar> \<le> 2 ^ 900
   \<and> float_product 25 (28 / 100) = 7881299347898369 / 2 ^ 50
   \<and> caras_sampling ([0, 0], [ln 3, 0]) [1, 1, 1, 1, 1, 1, 1] (4 / 5) 25 25 (28 / 100)
         (rng_of 8388608)
       = Inr (1, rng_of 8388608)"
proof -
  have n: "nucleus_sampling [0, 0] (4 / 5) 25 (rng_of 8388608) = Inr (1, rng_of 8388608)"
    by (rule nucleus_sampling_zeros2)
  have w10: "(0::int) \<le> 10" "(10::int) < 2 ^ 53" and w25: "(0::int) \<le> 25" "(25::int) < 2 ^ 53"
    by simp_all
  have t1: "\<bar>1 / 10 :: real\<bar> \<le> 2 ^ 900" and t2: "\<bar>1 / 5 :: real\<bar> \<le> 2 ^ 900"
    and t3: "\<bar>28 / 100 :: real\<bar> \<le> 2 ^ 900"
    by simp_all
  have a: "ras_sampling [0, 0] [1, 1, 1] (4 / 5) 25 10 (1 / 10) (rng_of 8388608)
             = Inr (1, rng_of 8388608)
           \<and> caras_sampling ([0, 0], [ln 3, 0]) [1, 1, 1] (4 / 5) 25 10 (1 / 10) (rng_of 8388608)
             = Inr (0, rng_of 8388608)"
    using repetition_guard[OF n w10 t1, of "[1, 1, 1]" "[ln 3, 0]"]
    by (simp add: last_entries_def float_product_10_01 random_sampling_zeros2 random_sampling_ln3)
  have b: "ras_sampling [0, 0] [1, 0, 0] (4 / 5) 25 10 (1 / 5) (rng_of 8388608)
             = Inr (1, rng_of 8388608)
           \<and> caras_sampling ([0, 0], [ln 3, 0]) [1, 0, 0] (4 / 5) 25 10 (1 / 5) (rng_of 8388608)
             = Inr (1, rng_of 8388608)"
    using repetition_guard[OF n w10 t2, of "[1, 0, 0]" "[ln 3, 0]"]
    by (simp add: last_entries_def float_product_10_02)
  have c: "caras_sampling ([0, 0], [ln 3, 0]) [1, 1, 1, 1, 1, 1, 1] (4 / 5) 25 25 (28 / 100)
             (rng_of 8388608)
           = Inr (1, rng_of 8388608)"
    using repetition_guard[OF n w25 t3, of "[1, 1, 1, 1, 1, 1, 1]" "[ln 3, 0]"]
    by (simp add: last_entries_def float_product_25_028_normal)
  show ?thesis
    by (intro conjI n w10 w25 t1 t3 a[THEN conjunct1] a[THEN conjunct2] b[THEN conjunct1]
        b[THEN conjunct2] c float_product_10_01 float_product_10_02 float_product_25_028)
qed

text \<open>
  As stated, with the exact product, the claim has the guard fall back at
  \<open>win_size = 25\<close>, \<open>tau_r = 0.28\<close> and seven occurrences of the candidate, since
  \<open>25 * 0.28 = 7\<close>. Under \<open>top_k = 1\<close> the candidate of two equally weighted tokens is
  token 0 and the fallback draw is token 1; both routines return token 0.
\<close>

theorem repetition_guard_exact_threshold_counterexample:
  "nucleus_sampling [0, 0] (4 / 5) 1 (rng_of 8388608) = Inr (0, rng_of 8388608)
   \<and> real_of_int 25 * (28 / 100)
        \<le> real (count_list (last_entries 25 [0, 0, 0, 0, 0, 0, 0]) 0)
   \<and> random_sampling (map Fin [0, 0]) [0, 0, 0, 0, 0, 0, 0] (rng_of 8388608)
        = Inr (1, rng_of 8388608)
   \<and> ras_sampling [0, 0] [0, 0, 0, 0, 0, 0, 0] (4 / 5) 1 25 (28 / 100) (rng_of 8388608)
        = Inr (0, rng_of 8388608)
   \<and> caras_sampling ([0, 0], [0, 0]) [0, 0, 0, 0, 0, 0, 0] (4 / 5) 1 25 (28 / 100)
          (rng_of 8388608)
        = Inr (0, rng_of 8388608)"
  by (simp add: nucleus_sampling_zeros2_cap last_entries_def random_sampling_zeros2
      ras_sampling_def caras_sampling_def window_def float_product_25_028_normal)

section \<open>The constraint filter\<close>

text \<open>
  Claim C3 says that, with a constraint context, the candidates are intersected with the
  allowed set of the context, and that an empty intersection yields a random allowed token.
  The code does neither: \<^verbatim>\<open>top_p_sampling_with_constraints\<close> hands
  \<^verbatim>\<open>keep_harmony\<close> and \<^verbatim>\<open>keep_rhythm\<close> the tensor of selected weights where they
  expect a token, so no candidate is ever compared with the allowed set. With the
  candidates 0, 1 and 2 and the allowed set \<open>{0}\<close> the membership test raises
  RuntimeError; with the single candidate 1 and the allowed set \<open>{1}\<close>, for a chord
  and for a time signature alike, the weight 0.9 is not a member, the random pick replaces
  the tensor by an integer, and the normalization that follows raises AttributeError.
  (By \<open>top_p_constraints_unchanged\<close>, a call with a constraint context that returns at
  all returns what the call without one returns.)
\<close>

theorem constraint_filter_failing_inputs:
  "top_p_sampling_with_constraints (\<lambda>c. [0]) (\<lambda>s. []) [1 / 2, 3 / 10, 1 / 5] [] (17 / 20) 1
       (Some ''C'') None None (rng_of 8388608) = Inl RuntimeError
   \<and> top_p_sampling_with_constraints (\<lambda>c. [1]) (\<lambda>s. []) [1 / 10, 9 / 10] [] (17 / 20) 1
       (Some ''C'') None None (rng_of 8388608) = Inl AttributeError
   \<and> top_p_sampling_with_constraints (\<lambda>c. []) (\<lambda>s. [1]) [1 / 10, 9 / 10] [] (17 / 20) 1
       None (Some ''4/4'') None (rng_of 8388608) = Inl AttributeError"
  by (simp add: top_p_sampling_with_constraints_def score_transform_one score_transform_one3
      select_top_p_tenths select_top_p_three apply_constraints_def keep_harmony_three
      keep_harmony_single keep_rhythm_single normalize_and_sample_int)

section \<open>The temperature of the score transform\<close>

text \<open>
  Claim C4, amended. For every score vector, \<^verbatim>\<open>top_p_sampling_with_constraints\<close> with
  the temperature 0 raises an error, Python's ZeroDivisionError from
  \<^verbatim>\<open>1 / temperature\<close>, which the function does not catch. A negative temperature is
  not rejected: on positive weights the temperature stage returns the weights raised to
  the negative power \<open>1 / temperature\<close> and renormalized, and sampling goes on.
\<close>

theorem temperature_zero_raises:
  "top_p_sampling_with_constraints get_allowed_notes get_allowed_durations weighted_scores
       decoded_tokens top_p 0 current_chord current_time_signature recent_tokens g
     = Inl ZeroDivisionError
   \<and> (temperature < 0 \<and> (\<forall>x \<in> set weighted_scores. 0 < x) \<longrightarrow>
        score_transform weighted_scores temperature None =
          Inr (map (\<lambda>x. x / sum_list (map (\<lambda>y. y powr (1 / temperature)) weighted_scores))
                 (map (\<lambda>y. y powr (1 / temperature)) weighted_scores)))"
  by (simp add: top_p_sampling_with_constraints_def score_transform_zero score_transform_negative)

theorem temperature_zero_raises_witness:
  "top_p_sampling_with_constraints (\<lambda>c. []) (\<lambda>s. []) [1 / 2, 1 / 2] [] (17 / 20) 0 None None None
       (rng_of 8388608) = Inl ZeroDivisionError
   \<and> (- 1 :: real) < 0
   \<and> score_transform [1 / 2, 1 / 2] (- 1) None = Inr [1 / 2, 1 / 2]"
  using temperature_zero_raises[of "\<lambda>c. []" "\<lambda>s. []" "[1 / 2, 1 / 2]" "[]" "17 / 20" None None
          None "rng_of 8388608" "- 1"]
  by (simp add: score_transform_halves_neg)

text \<open>
  Two equal weights and the temperature \<open>-1\<close>: the call raises nothing and returns a
  token.
\<close>

theorem temperature_negative_counterexample:
  "top_p_sampling_with_constraints (\<lambda>c. []) (\<lambda>s. []) [1 / 2, 1 / 2] [] (17 / 20) (- 1)
       None None None (rng_of 8388608) = Inr (1, rng_of 8388608)"
  by (rule top_p_negative_temperature)

section \<open>Top-k sampling beyond the vocabulary\<close>

text \<open>
  Claim C5, amended. For every score vector of vocabulary size \<open>n\<close> and every
  \<open>top_k > n\<close>, \<^verbatim>\<open>topk_sampling\<close> fails: \<^verbatim>\<open>torch.topk\<close> rejects a \<open>k\<close> beyond
  the size of the tensor with a RuntimeError, which \<^verbatim>\<open>topk_sampling\<close> does not catch,
  and nothing clamps \<open>top_k\<close>. For \<open>1 \<le> top_k \<le> n\<close> it returns a token id below \<open>n\<close>.
\<close>

theorem topk_sampling_beyond_vocabulary:
  "(int (length weighted_scores) < top_k \<longrightarrow>
      topk_sampling weighted_scores decoded_tokens top_k g = Inl RuntimeError)
   \<and> (1 \<le> top_k \<and> top_k \<le> int (length weighted_scores) \<longrightarrow>
      (\<exists>i g'. topk_sampling weighted_scores decoded_tokens top_k g = Inr (i, g')
               \<and> i < length weighted_scores))"
proof (intro conjI impI)
  assume "int (length weighted_scores) < top_k"
  then show "topk_sampling weighted_scores decoded_tokens top_k g = Inl RuntimeError"
    by (simp add: topk_sampling_def topk_def)
next
  assume "1 \<le> top_k \<and> top_k \<le> int (length weighted_scores)"
  then obtain i g' where r: "topk_sampling weighted_scores decoded_tokens top_k g = Inr (i, g')"
    using topk_sampling_returns by blast
  then have "i < length weighted_scores" by (rule topk_sampling_range)
  then show "\<exists>i g'. topk_sampling weighted_scores decoded_tokens top_k g = Inr (i, g')
               \<and> i < length weighted_scores" using r by blast
qed

theorem topk_sampling_beyond_vocabulary_witness:
  "int (length [0, 0 :: real]) < 3
   \<and> topk_sampling [0, 0] [] 3 (rng_of 8388608) = Inl RuntimeError
   \<and> (1::int) \<le> 2 \<and> 2 \<le> int (length [0, 0 :: real])
   \<and> topk_sampling [0, 0] [] 2 (rng_of 8388608) = Inr (1, rng_of 8388608)"
  using topk_sampling_beyond_vocabulary[of "[0, 0]" 3 "[]" "rng_of 8388608"]
        topk_sampling_beyond_vocabulary[of "[0, 0]" 2 "[]" "rng_of 8388608"]
  by (simp add: topk_sampling_zeros2)

text \<open>
  A vocabulary of two tokens and \<open>top_k = 3\<close>: the call raises instead of sampling over
  the two tokens.
\<close>

theorem topk_sampling_clamp_counterexample:
  "topk_sampling [0, 0] [] 3 (rng_of 8388608) = Inl RuntimeError
   \<and> random_sampling [Fin 0, Fin 0] [] (rng_of 8388608) = Inr (1, rng_of 8388608)"
  by (simp add: topk_sampling_def topk_def random_sampling_zeros2)

section \<open>The range of the returned token id\<close>

text \<open>
  Claim C6. Whatever a sampling entry point returns is an index of the score vector it
  was given: below the length of the vector for \<^verbatim>\<open>nucleus_sampling\<close>,
  \<^verbatim>\<open>topk_sampling\<close>, \<^verbatim>\<open>ras_sampling\<close>, \<^verbatim>\<open>random_sampling\<close> and
  \<^verbatim>\<open>top_p_sampling_with_constraints\<close>, and for \<^verbatim>\<open>caras_sampling\<close> below the
  common length of the primary and the guidance vector.
\<close>

theorem returned_token_in_vocabulary:
  "(nucleus_sampling weighted_scores top_p top_k g = Inr (i, g') \<longrightarrow> i < length weighted_scores)
   \<and> (topk_sampling weighted_scores decoded_tokens top_k g = Inr (i, g')
        \<longrightarrow> i < length weighted_scores)
   \<and> (ras_sampling weighted_scores decoded_tokens top_p top_k win_size tau_r g = Inr (i, g')
        \<longrightarrow> i < length weighted_scores)
   \<and> (length cfg_weighted_scores = length weighted_scores
        \<and> caras_sampling (weighted_scores, cfg_weighted_scores) decoded_tokens top_p top_k
              win_size tau_r g = Inr (i, g')
        \<longrightarrow> i < length weighted_scores)
   \<and> (random_sampling scores decoded_tokens g = Inr (i, g') \<longrightarrow> i < length scores)
   \<and> (top_p_sampling_with_constraints get_allowed_notes get_allowed_durations weighted_scores
          decoded_tokens top_p temperature current_chord current_time_signature recent_tokens g
          = Inr (i, g')
        \<longrightarrow> i < length weighted_scores)"
proof (intro conjI impI)
  assume "nucleus_sampling weighted_scores top_p top_k g = Inr (i, g')"
  then show "i < length weighted_scores" by (rule nucleus_sampling_range)
next
  assume "topk_sampling weighted_scores decoded_tokens top_k g = Inr (i, g')"
  then show "i < length weighted_scores" by (rule topk_sampling_range)
next
  assume "ras_sampling weighted_scores decoded_tokens top_p top_k win_size tau_r g = Inr (i, g')"
  then show "i < length weighted_scores" by (rule ras_sampling_range)
next
  assume a: "length cfg_weighted_scores = length weighted_scores
        \<and> caras_sampling (weighted_scores, cfg_weighted_scores) decoded_tokens top_p top_k
              win_size tau_r g = Inr (i, g')"
  show "i < length weighted_scores"
    using caras_sampling_range[OF conjunct2[OF a] conjunct1[OF a]] .
next
  assume "random_sampling scores decoded_tokens g = Inr (i, g')"
  then show "i < length scores" by (rule random_sampling_range)
next
  assume "top_p_sampling_with_constraints get_allowed_notes get_allowed_durations weighted_scores
          decoded_tokens top_p temperature current_chord current_time_signature recent_tokens g
          = Inr (i, g')"
  then show "i < length weighted_scores" by (rule top_p_sampling_with_constraints_range)
qed

text \<open>
  The six entry points on a vocabulary of two tokens. The last line also shows what the
  id of \<^verbatim>\<open>top_p_sampling_with_constraints\<close> is: the position in the sorted selection
  (0 for the only candidate, the token of weight 0.9, which is token 1).
\<close>

theorem returned_token_in_vocabulary_witness:
  "nucleus_sampling [0, 0] (4 / 5) 25 (rng_of 8388608) = Inr (1, rng_of 8388608)
   \<and> topk_sampling [0, 0] [] 2 (rng_of 8388608) = Inr (1, rng_of 8388608)
   \<and> ras_sampling [0, 0] [1, 1, 1] (4 / 5) 25 10 (1 / 10) (rng_of 8388608)
       = Inr (1, rng_of 8388608)
   \<and> length [ln 3, 0 :: real] = length [0, 0 :: real]
   \<and> caras_sampling ([0, 0], [ln 3, 0]) [1, 0, 0] (4 / 5) 25 10 (1 / 5) (rng_of 8388608)
       = Inr (1, rng_of 8388608)
   \<and> random_sampling [Fin 0, Fin 0] [] (rng_of 8388608) = Inr (1, rng_of 8388608)
   \<and> (1::nat) < length [0, 0 :: real]
   \<and> top_p_sampling_with_constraints (\<lambda>c. []) (\<lambda>s. []) [1 / 10, 9 / 10] [] (17 / 20) 1
         None None None (rng_of 8388608) = Inr (0, rng_of 8388608)
   \<and> (0::nat) < length [1 / 10, 9 / 10 :: real]"
proof -
  have n: "nucleus_sampling [0, 0] (4 / 5) 25 (rng_of 8388608) = Inr (1, rng_of 8388608)"
    by (rule nucleus_sampling_zeros2)
  have r: "random_sampling [Fin 0, Fin 0] d (rng_of 8388608) = Inr (1, rng_of 8388608)" for d
    by (rule random_sampling_zeros2)
  have ras: "ras_sampling [0, 0] [1, 1, 1] (4 / 5) 25 10 (1 / 10) (rng_of 8388608)
       = Inr (1, rng_of 8388608)"
    by (simp add: ras_sampling_def n r window_def float_product_10_01)
  have caras: "caras_sampling ([0, 0], [ln 3, 0]) [1, 0, 0] (4 / 5) 25 10 (1 / 5) (rng_of 8388608)
       = Inr (1, rng_of 8388608)"
    by (simp add: caras_sampling_def n window_def float_product_10_02)
  have tk: "topk_sampling [0, 0] [] 2 (rng_of 8388608) = Inr (1, rng_of 8388608)"
    by (rule topk_sampling_zeros2)
  have tp: "top_p_sampling_with_constraints (\<lambda>c. []) (\<lambda>s. []) [1 / 10, 9 / 10] [] (17 / 20) 1
         None None None (rng_of 8388608) = Inr (0, rng_of 8388608)"
    by (rule top_p_rank_example)
  show ?thesis
    using returned_token_in_vocabulary[where weighted_scores = "[0, 0]" and top_p = "4 / 5"
            and top_k = 25 and g = "rng_of 8388608" and i = 1 and g' = "rng_of 8388608"
            and scores = "[Fin 0, Fin 0]" and decoded_tokens = "[]"]
          returned_token_in_vocabulary[where weighted_scores = "[1 / 10, 9 / 10]"
            and get_allowed_notes = "\<lambda>c. []" and get_allowed_durations = "\<lambda>s. []"
            and decoded_tokens = "[]" and top_p = "17 / 20" and temperature = 1
            and current_chord = None and current_time_signature = None
            and recent_tokens = None and g = "rng_of 8388608" and i = 0
            and g' = "rng_of 8388608"]
    using n r ras caras tk tp by simp
qed

section \<open>The repetition penalty\<close>

text \<open>
  Claim C7, amended. For every weight vector, every recent-tokens window whose tokens are
  indices of the vector and every \<open>repetition_penalty \<ge> 1\<close>, \<^verbatim>\<open>relieve_repetition\<close>
  returns a vector of the same length in which an entry with a positive weight is divided
  by \<open>repetition_penalty\<close> once for each occurrence of its index in the window (so an
  index that occurs \<open>k\<close> times is divided by \<open>repetition_penalty ^ k\<close>, and an index
  that does not occur is unchanged), an entry that is not positive is unchanged, and
  nothing is renormalized: the sum of the result is at most the sum of the input.
\<close>

theorem relieve_repetition_effect:
  assumes "1 \<le> repetition_penalty"
    and "\<forall>t \<in> set recent_tokens. t < length weighted_scores"
  shows "\<exists>out. relieve_repetition weighted_scores recent_tokens repetition_penalty = Inr out
           \<and> length out = length weighted_scores
           \<and> (\<forall>i < length weighted_scores.
                 out ! i = (if 0 < weighted_scores ! i
                            then weighted_scores ! i / repetition_penalty ^ count_list recent_tokens i
                            else weighted_scores ! i))
           \<and> sum_list out \<le> sum_list weighted_scores"
proof -
  have pos: "0 < repetition_penalty" and nz: "repetition_penalty \<noteq> 0" using assms(1) by simp_all
  obtain out where out: "relieve_repetition weighted_scores recent_tokens repetition_penalty = Inr out"
    using relieve_repetition_returns[OF nz assms(2)] by blast
  have "length out = length weighted_scores" using out by (rule length_relieve_repetition)
  moreover have "\<forall>i < length weighted_scores.
      out ! i = (if 0 < weighted_scores ! i
                 then weighted_scores ! i / repetition_penalty ^ count_list recent_tokens i
                 else weighted_scores ! i)"
    using relieve_repetition_nth[OF pos out] by blast
  moreover have "sum_list out \<le> sum_list weighted_scores"
    using relieve_repetition_sum[OF assms(1) out] .
  ultimately show ?thesis using out by blast
qed

text \<open>
  The vector \<open>[1, -1, 3]\<close> with the window \<open>[0, 1, 0]\<close> and penalty 2: entry 0 is
  divided twice, entry 1 is not positive and entry 2 is not in the window.
\<close>

theorem relieve_repetition_effect_witness:
  "relieve_repetition [1, - 1, 3] [0, 1, 0] 2 = Inr [1 / 4, - 1, 3]
   \<and> sum_list [1 / 4, - 1, 3 :: real] \<le> sum_list [1, - 1, 3]"
proof -
  have p: "(1::real) \<le> 2" by simp
  have t: "\<forall>t \<in> set [0, 1, 0 :: nat]. t < length [1, - 1, 3 :: real]" by simp
  show ?thesis using relieve_repetition_effect[OF p t] by simp
qed

text \<open>
  As stated, the claim has every positive entry of the window divided by the penalty, so
  that \<open>[1]\<close> with the window \<open>[0, 0]\<close> and penalty 2 would become \<open>[1 / 2]\<close>.
\<close>

theorem relieve_repetition_once_counterexample:
  "relieve_repetition [1] [0, 0] 2 = Inr [1 / 4]
   \<and> relieve_repetition [1] [0, 0] 2 \<noteq> Inr [1 / 2]"
  by (simp add: relieve_repetition_twice)

section \<open>Top-k sampling over the full vocabulary\<close>

text \<open>
  Claim C8. For every score vector of vocabulary size \<open>n\<close>, top-k selection with
  \<open>top_k = n\<close> keeps every entry: the masked vector that \<^verbatim>\<open>topk_sampling\<close> builds is
  the input vector itself, and \<^verbatim>\<open>topk_sampling\<close> is \<^verbatim>\<open>random_sampling\<close> on the
  untruncated vector, for every history and every random state.
\<close>

theorem topk_sampling_full_vocabulary:
  "topk weighted_scores (int (length weighted_scores)) = Inr (sort_descending weighted_scores)
   \<and> scatter (replicate (length weighted_scores) NegInf) (sort_descending weighted_scores)
       = map Fin weighted_scores
   \<and> topk_sampling weighted_scores decoded_tokens (int (length weighted_scores)) g
       = random_sampling (map Fin weighted_scores) decoded_tokens g"
  by (simp add: topk_sampling_def topk_full scatter_sort_descending)

theorem topk_sampling_full_vocabulary_witness:
  "scatter [NegInf, NegInf] (sort_descending [0, 0]) = [Fin 0, Fin 0]
   \<and> topk_sampling [0, 0] [] 2 (rng_of 8388608) = Inr (1, rng_of 8388608)
   \<and> random_sampling [Fin 0, Fin 0] [] (rng_of 8388608) = Inr (1, rng_of 8388608)"
  using topk_sampling_full_vocabulary[of "[0, 0]" "[]" "rng_of 8388608"]
  by (simp add: random_sampling_zeros2)

section \<open>A zero repetition rate\<close>

text \<open>
  Claim C9. With \<open>tau_r = 0\<close> the threshold \<open>win_size * tau_r\<close> is 0 and every
  occurrence count meets it: for every history and every window size,
  \<^verbatim>\<open>ras_sampling\<close> and \<^verbatim>\<open>caras_sampling\<close> return the fallback draw (from the
  primary and from the guidance vector) made in the random state that the nucleus draw
  leaves. The nucleus draw is still performed, and an error of it propagates, but its
  candidate never reaches the result.
\<close>

theorem zero_rate_always_falls_back:
  "ras_sampling weighted_scores decoded_tokens top_p top_k win_size 0 g =
     (case nucleus_sampling weighted_scores top_p top_k g of
        Inl e \<Rightarrow> Inl e
      | Inr (c, g') \<Rightarrow> random_sampling (map Fin weighted_scores) decoded_tokens g')
   \<and> caras_sampling (weighted_scores, cfg_weighted_scores) decoded_tokens top_p top_k win_size 0 g =
     (case nucleus_sampling weighted_scores top_p top_k g of
        Inl e \<Rightarrow> Inl e
      | Inr (c, g') \<Rightarrow> random_sampling (map Fin cfg_weighted_scores) decoded_tokens g')"
  by (simp add: ras_sampling_def caras_sampling_def float_product_zero split: sum.splits)

text \<open>
  The candidate is token 1 and does not occur in the history \<open>[0, 0, 0]\<close>; the guard
  falls back all the same, and the guidance vector \<open>[ln 3, 0]\<close> yields token 0.
\<close>

theorem zero_rate_always_falls_back_witness:
  "nucleus_sampling [0, 0] (4 / 5) 25 (rng_of 8388608) = Inr (1, rng_of 8388608)
   \<and> ras_sampling [0, 0] [0, 0, 0] (4 / 5) 25 10 0 (rng_of 8388608) = Inr (1, rng_of 8388608)
   \<and> caras_sampling ([0, 0], [ln 3, 0]) [0, 0, 0] (4 / 5) 25 10 0 (rng_of 8388608)
       = Inr (0, rng_of 8388608)"
  using zero_rate_always_falls_back[of "[0, 0]" "[0, 0, 0]" "4 / 5" 25 10 "rng_of 8388608" "[ln 3, 0]"]
  by (simp add: nucleus_sampling_zeros2 random_sampling_zeros2 random_sampling_ln3)

section \<open>The Stochastic Chooser\<close>

text \<open>
  Claim C10. The result of \<^verbatim>\<open>random_sampling\<close> is a function of the weight vector and
  the random state alone: two calls that differ only in the \<^verbatim>\<open>decoded_tokens\<close>
  argument return the same token id and leave the same random state.
\<close>

theorem random_sampling_ignores_decoded_tokens:
  "random_sampling weighted_scores d1 g = random_sampling weighted_scores d2 g"
  by (simp add: random_sampling_def)

theorem random_sampling_ignores_decoded_tokens_witness:
  "random_sampling [Fin 0, Fin 0] [1, 1, 1] (rng_of 8388608) = Inr (1, rng_of 8388608)
   \<and> random_sampling [Fin 0, Fin 0] [] (rng_of 8388608) = Inr (1, rng_of 8388608)"
  using random_sampling_ignores_decoded_tokens[of "[Fin 0, Fin 0]" "[1, 1, 1]" "rng_of 8388608" "[]"]
  by (simp add: random_sampling_zeros2)

end
